theory Spec2Isabelle
  imports Main "HOL-Library.Word"
begin

unbundle bit_operations_syntax

text \<open>
  The emulators of the repository EMUPS5: a memory of bytes, a register file with a
  program counter, an instruction decoder and the run-state of the machine. The
  repository holds the same program at four stages; the definitions below follow
  \<open>PS5EMU1.06.29.251.0.py\<close> (the latest: 128KB, bounds-checked memory, JMP and BEQ),
  and, where they differ, \<open>EMUPS55.17.25V0hdr.py\<close> (64KB, suffix \<open>_hdr\<close>) and \<open>v1.py\<close>
  (64-bit words, suffix \<open>_v1\<close>). The window, its buttons and the update thread are not
  modelled: the methods of \<open>Emulator\<close> are functions from state to state.
\<close>

section \<open>Values and errors\<close>

text \<open>
  The emulator is written in Python over NumPy arrays. Bytes of memory are \<open>numpy.uint8\<close>,
  registers and instruction words are \<open>numpy.uint32\<close>. Exceptions are values of the type
  \<open>error\<close>; a method that can raise returns \<open>error + 'a\<close>.
\<close>

type_synonym u8 = "8 word"
type_synonym u32 = "32 word"
type_synonym u64 = "64 word"

datatype error = IndexError | ValueError

text \<open>Sequencing: an exception raised by the first statement leaves the method.\<close>

definition ebind :: "error + 'a \<Rightarrow> ('a \<Rightarrow> error + 'b) \<Rightarrow> error + 'b" where
  "ebind m f = (case m of Inl e \<Rightarrow> Inl e | Inr v \<Rightarrow> f v)"

text \<open>
  An address reaches \<open>Memory\<close> either as a Python \<open>int\<close> (the program counter, a loop
  index, a pixel offset) or as a \<open>numpy.uint32\<close> scalar (a register read by LDR/STR).
  Python dispatches \<open>address + 4\<close> on that type. For a \<open>numpy.uint32\<close> the sum depends on
  the NumPy release: with the promotion rules of NumPy 2 (NEP 50) it stays a
  \<open>numpy.uint32\<close> and wraps modulo \<open>2 ^ 32\<close>; before, it is an exact \<open>numpy.int64\<close>.
  The release is not fixed by the repository, so it is the parameter \<open>nep50\<close>.
\<close>

datatype pynum = PyInt int | NpUint32 u32

fun num_val :: "pynum \<Rightarrow> int" where
  "num_val (PyInt i) = i"
| "num_val (NpUint32 w) = uint w"

fun num_add :: "bool \<Rightarrow> pynum \<Rightarrow> int \<Rightarrow> pynum" where
  "num_add nep50 (PyInt i) k = PyInt (i + k)"
| "num_add nep50 (NpUint32 w) k =
     (if nep50 then NpUint32 (w + word_of_int k) else PyInt (uint w + k))"

section \<open>NumPy array primitives\<close>

text \<open>
  A slice bound of a sequence of length \<open>n\<close>: a negative bound counts from the end, and
  every bound is clamped into \<open>[0, n]\<close>.
\<close>

definition clamp_index :: "nat \<Rightarrow> int \<Rightarrow> nat" where
  "clamp_index n i =
     (if i < 0 then (if i + int n < 0 then 0 else nat (i + int n))
      else if int n < i then n else nat i)"

text \<open>\<open>xs[start:stop]\<close>\<close>

definition getslice :: "'a list \<Rightarrow> int \<Rightarrow> int \<Rightarrow> 'a list" where
  "getslice xs start stop =
     (let lo = clamp_index (length xs) start; hi = clamp_index (length xs) stop
      in take (hi - lo) (drop lo xs))"

text \<open>
  \<open>xs[start:stop] = vs\<close> on a one-dimensional array: the values must have the length of
  the slice, or length one (broadcast); otherwise NumPy raises \<open>ValueError\<close>.
\<close>

definition setslice :: "'a list \<Rightarrow> int \<Rightarrow> int \<Rightarrow> 'a list \<Rightarrow> error + 'a list" where
  "setslice xs start stop vs =
     (let lo = clamp_index (length xs) start; hi = clamp_index (length xs) stop;
          n = hi - lo
      in if length vs = n then Inr (take lo xs @ vs @ drop (lo + n) xs)
         else if length vs = 1 then Inr (take lo xs @ replicate n (hd vs) @ drop (lo + n) xs)
         else Inl ValueError)"

text \<open>The four bytes of a 32-bit word and back, in the byte order of a little-endian host.\<close>

definition uint32_of_bytes :: "u8 list \<Rightarrow> u32" where
  "uint32_of_bytes bs = foldr (\<lambda>b w. ucast b OR push_bit 8 w) bs 0"

definition bytes_of_uint32 :: "u32 \<Rightarrow> u8 list" where
  "bytes_of_uint32 w = [ucast w, ucast (drop_bit 8 w), ucast (drop_bit 16 w), ucast (drop_bit 24 w)]"

text \<open>
  \<open>np.frombuffer(buf, dtype=np.uint32)[0]\<close>: \<open>ValueError\<close> when the buffer is not a whole
  number of words, \<open>IndexError\<close> when it holds no word at all.
\<close>

definition frombuffer_uint32_0 :: "u8 list \<Rightarrow> error + u32" where
  "frombuffer_uint32_0 buf =
     (if length buf mod 4 \<noteq> 0 then Inl ValueError
      else if buf = [] then Inl IndexError
      else Inr (uint32_of_bytes (take 4 buf)))"

section \<open>Memory\<close>

subsection \<open>\<open>PS5EMU1.06.29.251.0.py\<close>: bounds-checked\<close>

definition read_uint32 :: "bool \<Rightarrow> u8 list \<Rightarrow> pynum \<Rightarrow> error + u32" where
  "read_uint32 nep50 memory address =
     (if num_val address < 0 \<or> num_val (num_add nep50 address 4) > int (length memory)
      then Inr 0
      else frombuffer_uint32_0
             (getslice memory (num_val address) (num_val (num_add nep50 address 4))))"

definition write_uint32 :: "bool \<Rightarrow> u8 list \<Rightarrow> pynum \<Rightarrow> u32 \<Rightarrow> error + u8 list" where
  "write_uint32 nep50 memory address v =
     (if num_val address < 0 \<or> num_val (num_add nep50 address 4) > int (length memory)
      then Inr memory
      else setslice memory (num_val address) (num_val (num_add nep50 address 4))
             (bytes_of_uint32 v))"

definition write_bytes :: "u8 list \<Rightarrow> int \<Rightarrow> u8 list \<Rightarrow> error + u8 list" where
  "write_bytes memory address vs =
     (if address < 0 \<or> address + int (length vs) > int (length memory)
      then Inr memory
      else setslice memory address (address + int (length vs)) vs)"

subsection \<open>\<open>EMUPS55.17.25V0hdr.py\<close>: no bounds check\<close>

definition read_uint32_hdr :: "bool \<Rightarrow> u8 list \<Rightarrow> pynum \<Rightarrow> error + u32" where
  "read_uint32_hdr nep50 memory address =
     frombuffer_uint32_0
       (getslice memory (num_val address) (num_val (num_add nep50 address 4)))"

definition write_uint32_hdr :: "bool \<Rightarrow> u8 list \<Rightarrow> pynum \<Rightarrow> u32 \<Rightarrow> error + u8 list" where
  "write_uint32_hdr nep50 memory address v =
     setslice memory (num_val address) (num_val (num_add nep50 address 4)) (bytes_of_uint32 v)"

definition write_bytes_hdr :: "u8 list \<Rightarrow> int \<Rightarrow> u8 list \<Rightarrow> error + u8 list" where
  "write_bytes_hdr memory address vs =
     setslice memory address (address + int (length vs)) vs"

section \<open>The machine of \<open>PS5EMU1.06.29.251.0.py\<close>\<close>

text \<open>
  NumPy arrays are views of data buffers. \<open>heap\<close> maps a buffer to its bytes;
  \<open>memory\<close> is the buffer owned by the array \<open>Memory.memory\<close>, and \<open>framebuffer\<close> is the
  view \<open>self.memory.memory[0:128*128*4].reshape(...)\<close>: a buffer, a start offset and a
  length, never a copy. The fields of \<open>CPU\<close> (\<open>registers\<close>, \<open>pc\<close>) and of \<open>Emulator\<close>
  are one record, since \<open>cpu.memory\<close> and \<open>cpu.log_queue\<close> are the emulator's own objects.
  The two queues hold the events put so far, oldest first. \<open>pc\<close> is the value of
  \<open>cpu.pc\<close>, a Python \<open>int\<close> at first and a NumPy scalar after JMP or BEQ: the run loop
  keeps it below \<open>2 ^ 24 + 4\<close>, where the arithmetic of both is exact, and in BEQ a
  wrap-around modulo \<open>2 ^ 32\<close> would not change the result modulo \<open>128 * 1024\<close>.
\<close>

record view =
  vbuf :: nat
  vstart :: nat
  vlen :: nat

definition view_bytes :: "(nat \<Rightarrow> u8 list) \<Rightarrow> view \<Rightarrow> u8 list" where
  "view_bytes h v = take (vlen v) (drop (vstart v) (h (vbuf v)))"

record emulator =
  registers :: "u32 list"
  pc :: int
  heap :: "nat \<Rightarrow> u8 list"
  memory :: nat
  framebuffer :: view
  is_running :: bool
  game_loaded :: bool
  log_queue :: "(string \<times> string) list"
  status_queue :: "(string \<times> string) list"

definition mem_bytes :: "emulator \<Rightarrow> u8 list" where
  "mem_bytes s = heap s (memory s)"

definition set_mem :: "emulator \<Rightarrow> u8 list \<Rightarrow> emulator" where
  "set_mem s bs = s\<lparr>heap := (heap s)(memory s := bs)\<rparr>"

definition log_put :: "string \<times> string \<Rightarrow> emulator \<Rightarrow> emulator" where
  "log_put e s = s\<lparr>log_queue := log_queue s @ [e]\<rparr>"

definition status_put :: "string \<times> string \<Rightarrow> emulator \<Rightarrow> emulator" where
  "status_put e s = s\<lparr>status_queue := status_queue s @ [e]\<rparr>"

text \<open>\<open>Emulator.__init__\<close>, with the two queues the application hands in.\<close>

definition Emulator_init :: "(string \<times> string) list \<Rightarrow> (string \<times> string) list \<Rightarrow> emulator" where
  "Emulator_init lq sq =
     \<lparr>registers = replicate 16 0, pc = 0,
      heap = (\<lambda>_. [])(0 := replicate (128 * 1024) 0), memory = 0,
      framebuffer = \<lparr>vbuf = 0, vstart = 0, vlen = 128 * 128 * 4\<rparr>,
      is_running = False, game_loaded = False, log_queue = lq, status_queue = sq\<rparr>"

subsection \<open>\<open>CPU.execute_instruction\<close>\<close>

text \<open>\<open>(instruction >> k) & m\<close>\<close>

definition bits :: "u32 \<Rightarrow> nat \<Rightarrow> u32 \<Rightarrow> u32" where
  "bits instruction k m = drop_bit k instruction AND m"

text \<open>\<open>self.registers[i]\<close> and \<open>self.registers[i] = v\<close>, with NumPy's index check.\<close>

definition get_reg :: "emulator \<Rightarrow> u32 \<Rightarrow> error + u32" where
  "get_reg s i =
     (if unat i < length (registers s) then Inr (registers s ! unat i) else Inl IndexError)"

definition set_reg :: "emulator \<Rightarrow> u32 \<Rightarrow> u32 \<Rightarrow> error + emulator" where
  "set_reg s i v =
     (if unat i < length (registers s)
      then Inr (s\<lparr>registers := (registers s)[unat i := v]\<rparr>) else Inl IndexError)"

text \<open>\<open>self.pc += 4\<close>, the last line of the method.\<close>

definition advance :: "emulator \<Rightarrow> emulator" where
  "advance s = s\<lparr>pc := pc s + 4\<rparr>"

text \<open>\<open>str\<close> of a non-negative integer, for the message of the unknown opcode.\<close>

fun str_nat :: "nat \<Rightarrow> string" where
  "str_nat n =
     (if n < 10 then [''0123456789'' ! n] else str_nat (n div 10) @ [''0123456789'' ! (n mod 10)])"

declare str_nat.simps [simp del]

definition execute_instruction :: "bool \<Rightarrow> emulator \<Rightarrow> u32 \<Rightarrow> error + emulator" where
  "execute_instruction nep50 s instruction =
     (let opcode = bits instruction 24 0xFF in
      if opcode = 0 then Inr (advance s)
      else if opcode = 1 then
        (let rd = bits instruction 20 0xF; rs = bits instruction 16 0xF in
         ebind (get_reg s rs) (\<lambda>v.
         ebind (set_reg s rd v) (\<lambda>s'. Inr (advance s'))))
      else if opcode = 2 then
        (let rd = bits instruction 20 0xF; rs = bits instruction 16 0xF;
             rt = bits instruction 12 0xF in
         ebind (get_reg s rs) (\<lambda>a.
         ebind (get_reg s rt) (\<lambda>b.
         ebind (set_reg s rd (a + b)) (\<lambda>s'. Inr (advance s')))))
      else if opcode = 3 then
        (let rd = bits instruction 20 0xF; rs = bits instruction 16 0xF in
         ebind (get_reg s rs) (\<lambda>addr.
         ebind (read_uint32 nep50 (mem_bytes s) (NpUint32 addr)) (\<lambda>v.
         ebind (set_reg s rd v) (\<lambda>s'. Inr (advance s')))))
      else if opcode = 4 then
        (let rs = bits instruction 20 0xF; rd = bits instruction 16 0xF in
         ebind (get_reg s rd) (\<lambda>addr.
         ebind (get_reg s rs) (\<lambda>v.
         ebind (write_uint32 nep50 (mem_bytes s) (NpUint32 addr) v) (\<lambda>m.
         Inr (advance (set_mem s m))))))
      else if opcode = 5 then
        (let x = bits instruction 20 0xFF; y = bits instruction 12 0xFF;
             r = bits instruction 9 0x7; g = bits instruction 6 0x7;
             b = bits instruction 3 0x7; a = instruction AND 0x7;
             r = r * 36; g = g * 36; b = b * 36; a = a * 36 in
         if x < 128 \<and> y < 128 then
           (let addr = uint y * 128 * 4 + uint x * 4 in
            ebind (write_bytes (mem_bytes s) addr [ucast r, ucast g, ucast b, ucast a])
              (\<lambda>m. Inr (advance (set_mem s m))))
         else Inr (advance s))
      else if opcode = 6 then
        (let addr = instruction AND 0xFFFFFF in Inr (s\<lparr>pc := uint addr\<rparr>))
      else if opcode = 7 then
        (let rs = bits instruction 20 0xF; rt = bits instruction 16 0xF;
             offset = instruction AND 0xFFFF in
         ebind (get_reg s rs) (\<lambda>a.
         ebind (get_reg s rt) (\<lambda>b.
         if a = b then Inr (s\<lparr>pc := (pc s + uint offset) mod (128 * 1024)\<rparr>)
         else Inr (advance s))))
      else Inr (advance (log_put (''error'', ''Unknown opcode: '' @ str_nat (unat opcode)) s)))"

subsection \<open>\<open>Emulator\<close>\<close>

text \<open>\<open>range(0, n, 4)\<close>\<close>

definition range4 :: "nat \<Rightarrow> nat list" where
  "range4 n = map (\<lambda>k. 4 * k) [0..<(n + 3) div 4]"

text \<open>The body of the loop of \<open>load_game\<close>, for the indices still to visit.\<close>

fun load_words :: "bool \<Rightarrow> u8 list \<Rightarrow> nat list \<Rightarrow> u8 list \<Rightarrow> error + u8 list" where
  "load_words nep50 game_data [] m = Inr m"
| "load_words nep50 game_data (i # is) m =
     ebind (if i + 4 \<le> length game_data
            then frombuffer_uint32_0 (getslice game_data (int i) (int i + 4)) else Inr 0) (\<lambda>v.
     ebind (write_uint32 nep50 m (PyInt (int i)) v) (\<lambda>m'. load_words nep50 game_data is m'))"

definition load_game :: "bool \<Rightarrow> emulator \<Rightarrow> u8 list \<Rightarrow> error + emulator" where
  "load_game nep50 s game_data =
     (let s1 = log_put (''warning'', ''Loading program...'') s in
      ebind (load_words nep50 game_data (range4 (length game_data)) (mem_bytes s1)) (\<lambda>m.
          Inr (status_put (''Program loaded'', ''success'')
                (log_put (''success'', ''Program loaded successfully.'')
                  ((set_mem s1 m)\<lparr>game_loaded := True\<rparr>)))))"

definition start :: "emulator \<Rightarrow> emulator" where
  "start s =
     (if \<not> game_loaded s then log_put (''error'', ''No program loaded!'') s
      else status_put (''Running'', ''success'')
             (log_put (''success'', ''Emulator started.'') (s\<lparr>is_running := True\<rparr>)))"

definition pause :: "emulator \<Rightarrow> emulator" where
  "pause s =
     status_put (''Paused'', ''warning'')
       (log_put (''warning'', ''Emulator paused.'') (s\<lparr>is_running := False\<rparr>))"

definition stop :: "emulator \<Rightarrow> emulator" where
  "stop s =
     status_put (''Stopped'', ''error'')
       (log_put (''error'', ''Emulator stopped.'') (s\<lparr>is_running := False, pc := 0\<rparr>))"

definition run_cycle :: "bool \<Rightarrow> emulator \<Rightarrow> error + emulator" where
  "run_cycle nep50 s =
     (if \<not> is_running s then Inr s
      else
        ebind (read_uint32 nep50 (mem_bytes s) (PyInt (pc s))) (\<lambda>instruction.
        ebind (execute_instruction nep50 s instruction) (\<lambda>s'.
        Inr (if pc s' \<ge> int (length (mem_bytes s')) then stop s' else s'))))"

text \<open>\<open>load_demo\<close>: the instruction words, stored at \<open>i * 4\<close>, then one data word.\<close>

definition demo_instructions :: "u32 list" where
  "demo_instructions =
     [push_bit 24 1 OR push_bit 20 0 OR push_bit 16 64,
      push_bit 24 1 OR push_bit 20 1 OR push_bit 16 64,
      push_bit 24 1 OR push_bit 20 2 OR push_bit 16 1,
      push_bit 24 1 OR push_bit 20 3 OR push_bit 16 1,
      push_bit 24 5 OR push_bit 20 0 OR push_bit 12 1 OR push_bit 9 7 OR push_bit 6 0
        OR push_bit 3 0 OR 7,
      push_bit 24 2 OR push_bit 20 0 OR push_bit 16 0 OR push_bit 12 2,
      push_bit 24 2 OR push_bit 20 1 OR push_bit 16 1 OR push_bit 12 3,
      push_bit 24 7 OR push_bit 20 0 OR push_bit 16 4 OR 16,
      push_bit 24 7 OR push_bit 20 1 OR push_bit 16 4 OR 24,
      push_bit 24 6 OR 16,
      push_bit 24 1 OR push_bit 20 2 OR push_bit 16 255,
      push_bit 24 6 OR 16,
      push_bit 24 1 OR push_bit 20 3 OR push_bit 16 255,
      push_bit 24 6 OR 16]"

fun store_all :: "bool \<Rightarrow> (nat \<times> u32) list \<Rightarrow> u8 list \<Rightarrow> error + u8 list" where
  "store_all nep50 [] m = Inr m"
| "store_all nep50 ((i, inst) # rest) m =
     ebind (write_uint32 nep50 m (PyInt (int i * 4)) inst) (\<lambda>m'. store_all nep50 rest m')"

definition load_demo :: "bool \<Rightarrow> emulator \<Rightarrow> error + emulator" where
  "load_demo nep50 s =
     ebind (store_all nep50 (enumerate 0 demo_instructions) (mem_bytes s)) (\<lambda>m.
     ebind (write_uint32 nep50 m (PyInt (4 * 4)) 127) (\<lambda>m'.
       Inr (log_put (''success'', ''Bouncing pixel demo loaded.'')
             ((set_mem s m')\<lparr>game_loaded := True\<rparr>))))"

subsection \<open>The states the application can reach\<close>

text \<open>
  The application builds one emulator with two empty queues, calls its methods from the
  buttons and from the update loop, and takes events out of the queues (or puts its own).
\<close>

inductive reachable :: "bool \<Rightarrow> emulator \<Rightarrow> bool" for nep50 :: bool where
  init: "reachable nep50 (Emulator_init [] [])"
| load_game: "reachable nep50 s \<Longrightarrow> load_game nep50 s game_data = Inr s' \<Longrightarrow> reachable nep50 s'"
| load_demo: "reachable nep50 s \<Longrightarrow> load_demo nep50 s = Inr s' \<Longrightarrow> reachable nep50 s'"
| start: "reachable nep50 s \<Longrightarrow> reachable nep50 (start s)"
| pause: "reachable nep50 s \<Longrightarrow> reachable nep50 (pause s)"
| stop: "reachable nep50 s \<Longrightarrow> reachable nep50 (stop s)"
| run_cycle: "reachable nep50 s \<Longrightarrow> run_cycle nep50 s = Inr s' \<Longrightarrow> reachable nep50 s'"
| queues: "reachable nep50 s \<Longrightarrow> reachable nep50 (s\<lparr>log_queue := lq, status_queue := sq\<rparr>)"

text \<open>
  The shape every such state has: 16 registers, 128KB in the memory buffer, and the
  framebuffer a view of the first \<open>128 * 128 * 4\<close> bytes of that buffer.
\<close>

definition machine_ok :: "emulator \<Rightarrow> bool" where
  "machine_ok s \<longleftrightarrow>
     length (registers s) = 16 \<and> length (mem_bytes s) = 128 * 1024
     \<and> framebuffer s = \<lparr>vbuf = memory s, vstart = 0, vlen = 128 * 128 * 4\<rparr>"

text \<open>
  The one case in which LDR or STR computes \<open>address + 4\<close> with wrap-around: NumPy 2
  promotion and an address register (bits 16..19) within four of \<open>2 ^ 32\<close>.
\<close>

definition address_wraps :: "bool \<Rightarrow> emulator \<Rightarrow> u32 \<Rightarrow> bool" where
  "address_wraps nep50 s instruction \<longleftrightarrow>
     nep50 \<and> (bits instruction 24 0xFF = 3 \<or> bits instruction 24 0xFF = 4)
     \<and> 2 ^ 32 \<le> uint (registers s ! unat (bits instruction 16 0xF)) + 4"

text \<open>
  What the presenter reads: the bytes of \<open>self.emulator.framebuffer\<close>, and
  \<open>framebuffer[y, x]\<close> for rows of \<open>w\<close> pixels of four bytes.
\<close>

definition framebuffer_bytes :: "emulator \<Rightarrow> u8 list" where
  "framebuffer_bytes s = view_bytes (heap s) (framebuffer s)"

definition pixel_at :: "nat \<Rightarrow> u8 list \<Rightarrow> nat \<Rightarrow> nat \<Rightarrow> u8 list" where
  "pixel_at w fb x y = take 4 (drop ((y * w + x) * 4) fb)"

text \<open>
  The channel scaling in the words of the specification: the raw value times
  \<open>floor(255 / (2 ^ w - 1))\<close> for a field of \<open>w\<close> bits.
\<close>

definition scaled_spec :: "nat \<Rightarrow> nat \<Rightarrow> nat" where
  "scaled_spec w raw = raw * (255 div (2 ^ w - 1))"

section \<open>The machine of \<open>EMUPS55.17.25V0hdr.py\<close>\<close>

text \<open>
  The same classes with 64KB of memory, a 64x64 framebuffer sliced out of it, 4-bit
  SETPIXEL fields and no JMP or BEQ. \<open>start\<close>, \<open>pause\<close> and \<open>stop\<close> are the same text
  as above.
\<close>

definition Emulator_init_hdr :: "(string \<times> string) list \<Rightarrow> (string \<times> string) list \<Rightarrow> emulator" where
  "Emulator_init_hdr lq sq =
     \<lparr>registers = replicate 16 0, pc = 0,
      heap = (\<lambda>_. [])(0 := replicate (64 * 1024) 0), memory = 0,
      framebuffer = \<lparr>vbuf = 0, vstart = 0, vlen = 64 * 64 * 4\<rparr>,
      is_running = False, game_loaded = False, log_queue = lq, status_queue = sq\<rparr>"

definition execute_instruction_hdr :: "bool \<Rightarrow> emulator \<Rightarrow> u32 \<Rightarrow> error + emulator" where
  "execute_instruction_hdr nep50 s instruction =
     (let opcode = bits instruction 24 0xFF in
      if opcode = 0 then Inr (advance s)
      else if opcode = 1 then
        (let rd = bits instruction 20 0xF; rs = bits instruction 16 0xF in
         ebind (get_reg s rs) (\<lambda>v.
         ebind (set_reg s rd v) (\<lambda>s'. Inr (advance s'))))
      else if opcode = 2 then
        (let rd = bits instruction 20 0xF; rs = bits instruction 16 0xF;
             rt = bits instruction 12 0xF in
         ebind (get_reg s rs) (\<lambda>a.
         ebind (get_reg s rt) (\<lambda>b.
         ebind (set_reg s rd (a + b)) (\<lambda>s'. Inr (advance s')))))
      else if opcode = 3 then
        (let rd = bits instruction 20 0xF; rs = bits instruction 16 0xF in
         ebind (get_reg s rs) (\<lambda>addr.
         ebind (read_uint32_hdr nep50 (mem_bytes s) (NpUint32 addr)) (\<lambda>v.
         ebind (set_reg s rd v) (\<lambda>s'. Inr (advance s')))))
      else if opcode = 4 then
        (let rs = bits instruction 20 0xF; rd = bits instruction 16 0xF in
         ebind (get_reg s rd) (\<lambda>addr.
         ebind (get_reg s rs) (\<lambda>v.
         ebind (write_uint32_hdr nep50 (mem_bytes s) (NpUint32 addr) v) (\<lambda>m.
         Inr (advance (set_mem s m))))))
      else if opcode = 5 then
        (let x = bits instruction 20 0xF; y = bits instruction 16 0xF;
             r = bits instruction 12 0xF; g = bits instruction 8 0xF;
             b = bits instruction 4 0xF; a = instruction AND 0xF;
             r = r * 17; g = g * 17; b = b * 17; a = a * 17 in
         if x < 64 \<and> y < 64 then
           (let addr = uint y * 64 * 4 + uint x * 4 in
            ebind (write_bytes_hdr (mem_bytes s) addr [ucast r, ucast g, ucast b, ucast a])
              (\<lambda>m. Inr (advance (set_mem s m))))
         else Inr (advance s))
      else Inr (advance (log_put (''error'', ''Unknown opcode: '' @ str_nat (unat opcode)) s)))"

fun load_words_hdr :: "bool \<Rightarrow> u8 list \<Rightarrow> nat list \<Rightarrow> u8 list \<Rightarrow> error + u8 list" where
  "load_words_hdr nep50 game_data [] m = Inr m"
| "load_words_hdr nep50 game_data (i # is) m =
     ebind (if i + 4 \<le> length game_data
            then frombuffer_uint32_0 (getslice game_data (int i) (int i + 4)) else Inr 0) (\<lambda>v.
     ebind (write_uint32_hdr nep50 m (PyInt (int i)) v) (\<lambda>m'. load_words_hdr nep50 game_data is m'))"

definition load_game_hdr :: "bool \<Rightarrow> emulator \<Rightarrow> u8 list \<Rightarrow> error + emulator" where
  "load_game_hdr nep50 s game_data =
     (let s1 = log_put (''warning'', ''Loading program...'') s in
      ebind (load_words_hdr nep50 game_data (range4 (length game_data)) (mem_bytes s1)) (\<lambda>m.
          Inr (status_put (''Program loaded'', ''success'')
                (log_put (''success'', ''Program loaded successfully.'')
                  ((set_mem s1 m)\<lparr>game_loaded := True\<rparr>)))))"

definition machine_ok_hdr :: "emulator \<Rightarrow> bool" where
  "machine_ok_hdr s \<longleftrightarrow>
     length (registers s) = 16 \<and> length (mem_bytes s) = 64 * 1024
     \<and> framebuffer s = \<lparr>vbuf = memory s, vstart = 0, vlen = 64 * 64 * 4\<rparr>"

section \<open>The machine of \<open>v1.py\<close>\<close>

text \<open>
  The first variant: 256 registers and a memory of 64-bit words, and a framebuffer that
  is an array of its own, \<open>np.zeros((64, 64, 4), dtype=np.uint8)\<close>. Two calls of
  \<open>np.zeros\<close> give two buffers, so the two arrays are two fields. The queues are
  module globals.

  \<open>cpu.pc\<close> starts as \<open>np.uint64(0)\<close> and is the Python \<open>int\<close> 0 after \<open>stop\<close>. Before
  NumPy 2, an operation of a \<open>numpy.uint64\<close> with a Python \<open>int\<close> gives a
  \<open>numpy.float64\<close>, which is no valid index; only that it is a float matters here, its
  value is kept as the exact sum.
\<close>

datatype counter = PyCounter int | NpCounter u64 | NpFloat int

fun counter_val :: "counter \<Rightarrow> int" where
  "counter_val (PyCounter a) = a"
| "counter_val (NpCounter w) = uint w"
| "counter_val (NpFloat v) = v"

record emulator_v1 =
  registers_v1 :: "u64 list"
  pc_v1 :: counter
  memory_v1 :: "u64 list"
  framebuffer_v1 :: "u8 list"
  is_running_v1 :: bool
  game_loaded_v1 :: bool
  log_queue_v1 :: "(string \<times> string) list"
  status_queue_v1 :: "(string \<times> string) list"

definition Emulator_init_v1 :: "(string \<times> string) list \<Rightarrow> (string \<times> string) list \<Rightarrow> emulator_v1" where
  "Emulator_init_v1 lq sq =
     \<lparr>registers_v1 = replicate 256 0, pc_v1 = NpCounter 0,
      memory_v1 = replicate (16 * 1024 * 1024 * 1024 div 8) 0,
      framebuffer_v1 = replicate (64 * 64 * 4) 0,
      is_running_v1 = False, game_loaded_v1 = False,
      log_queue_v1 = lq, status_queue_v1 = sq\<rparr>"

definition uint64_of_bytes :: "u8 list \<Rightarrow> u64" where
  "uint64_of_bytes bs = foldr (\<lambda>b w. ucast b OR push_bit 8 w) bs 0"

definition bytes_of_uint64 :: "u64 \<Rightarrow> u8 list" where
  "bytes_of_uint64 w =
     [ucast w, ucast (drop_bit 8 w), ucast (drop_bit 16 w), ucast (drop_bit 24 w),
      ucast (drop_bit 32 w), ucast (drop_bit 40 w), ucast (drop_bit 48 w), ucast (drop_bit 56 w)]"

definition frombuffer_uint64_0 :: "u8 list \<Rightarrow> error + u64" where
  "frombuffer_uint64_0 buf =
     (if length buf mod 8 \<noteq> 0 then Inl ValueError
      else if buf = [] then Inl IndexError
      else Inr (uint64_of_bytes (take 8 buf)))"

text \<open>\<open>Memory.write\<close>: \<open>self.memory[address // 8] = value\<close>, for a Python \<open>int\<close> address.\<close>

definition write_v1 :: "u64 list \<Rightarrow> int \<Rightarrow> u64 \<Rightarrow> error + u64 list" where
  "write_v1 m address v =
     (let i = address div 8; n = int (length m);
          j = (if i < 0 then i + n else i)
      in if 0 \<le> j \<and> j < n then Inr (m[nat j := v]) else Inl IndexError)"

definition range8 :: "nat \<Rightarrow> nat list" where
  "range8 n = map (\<lambda>k. 8 * k) [0..<(n + 7) div 8]"

fun load_words_v1 :: "u8 list \<Rightarrow> nat list \<Rightarrow> u64 list \<Rightarrow> error + u64 list" where
  "load_words_v1 game_data [] m = Inr m"
| "load_words_v1 game_data (i # is) m =
     ebind (if i + 8 \<le> length game_data
            then frombuffer_uint64_0 (getslice game_data (int i) (int i + 8)) else Inr 0) (\<lambda>v.
     ebind (write_v1 m (int i) v) (\<lambda>m'. load_words_v1 game_data is m'))"

definition load_game_v1 :: "emulator_v1 \<Rightarrow> u8 list \<Rightarrow> error + emulator_v1" where
  "load_game_v1 s game_data =
     (let s1 = s\<lparr>log_queue_v1 := log_queue_v1 s @ [(''warning'', ''Loading game...'')]\<rparr> in
      ebind (load_words_v1 game_data (range8 (length game_data)) (memory_v1 s1)) (\<lambda>m.
          Inr (s1\<lparr>memory_v1 := m, game_loaded_v1 := True,
                  log_queue_v1 := log_queue_v1 s1 @ [(''success'', ''Game loaded successfully.'')],
                  status_queue_v1 := status_queue_v1 s1 @ [(''Game loaded'', ''success'')]\<rparr>)))"

text \<open>\<open>Memory.read\<close>: \<open>self.memory[address // 8]\<close>.\<close>

definition index_v1 :: "u64 list \<Rightarrow> int \<Rightarrow> error + u64" where
  "index_v1 m i =
     (let n = int (length m); j = (if i < 0 then i + n else i)
      in if 0 \<le> j \<and> j < n then Inr (m ! nat j) else Inl IndexError)"

fun read_v1 :: "bool \<Rightarrow> u64 list \<Rightarrow> counter \<Rightarrow> error + u64" where
  "read_v1 nep50 m (PyCounter a) = index_v1 m (a div 8)"
| "read_v1 nep50 m (NpCounter w) = (if nep50 then index_v1 m (uint w div 8) else Inl IndexError)"
| "read_v1 nep50 m (NpFloat v) = Inl IndexError"

text \<open>\<open>self.pc += 8\<close>\<close>

fun counter_add8 :: "bool \<Rightarrow> counter \<Rightarrow> counter" where
  "counter_add8 nep50 (PyCounter a) = PyCounter (a + 8)"
| "counter_add8 nep50 (NpCounter w) = (if nep50 then NpCounter (w + 8) else NpFloat (uint w + 8))"
| "counter_add8 nep50 (NpFloat v) = NpFloat (v + 8)"

text \<open>The format \<open>016x\<close>: sixteen hexadecimal digits, lower case.\<close>

definition hex_digit :: "nat \<Rightarrow> char" where
  "hex_digit n = ''0123456789abcdef'' ! n"

definition hex16 :: "u64 \<Rightarrow> string" where
  "hex16 w = map (\<lambda>k. hex_digit (unat (drop_bit (4 * k) w AND 0xF))) (rev [0..<16])"

definition execute_instruction_v1 :: "bool \<Rightarrow> emulator_v1 \<Rightarrow> u64 \<Rightarrow> emulator_v1" where
  "execute_instruction_v1 nep50 s instruction =
     s\<lparr>log_queue_v1 :=
         log_queue_v1 s @ [(''success'', ''Executing instruction: 0x'' @ hex16 instruction)],
       pc_v1 := counter_add8 nep50 (pc_v1 s)\<rparr>"

definition stop_v1 :: "emulator_v1 \<Rightarrow> emulator_v1" where
  "stop_v1 s =
     s\<lparr>is_running_v1 := False, pc_v1 := PyCounter 0,
       log_queue_v1 := log_queue_v1 s @ [(''error'', ''Emulator stopped.'')],
       status_queue_v1 := status_queue_v1 s @ [(''Stopped'', ''error'')]\<rparr>"

text \<open>
  \<open>run_cycle\<close>. The five numbers drawn from \<open>random\<close> are arguments: the pixel position
  and its red, green and blue bytes.
\<close>

definition random_pixel_v1 :: "emulator_v1 \<Rightarrow> nat \<Rightarrow> nat \<Rightarrow> u8 list \<Rightarrow> error + emulator_v1" where
  "random_pixel_v1 s x y px =
     (if x < 64 \<and> y < 64
      then Inr (s\<lparr>framebuffer_v1 :=
                  take ((y * 64 + x) * 4) (framebuffer_v1 s) @ px
                  @ drop ((y * 64 + x) * 4 + 4) (framebuffer_v1 s)\<rparr>)
      else Inl IndexError)"

definition run_cycle_v1 ::
  "bool \<Rightarrow> nat \<Rightarrow> nat \<Rightarrow> u8 \<Rightarrow> u8 \<Rightarrow> u8 \<Rightarrow> emulator_v1 \<Rightarrow> error + emulator_v1" where
  "run_cycle_v1 nep50 x y r g b s =
     (if \<not> is_running_v1 s then Inr s
      else
        ebind (read_v1 nep50 (memory_v1 s) (pc_v1 s)) (\<lambda>instruction.
        let s1 = execute_instruction_v1 nep50 s instruction in
        ebind (if is_running_v1 s1 then random_pixel_v1 s1 x y [r, g, b, 255] else Inr s1) (\<lambda>s2.
        Inr (if counter_val (pc_v1 s2) \<ge> int (length (memory_v1 s2)) * 8
             then stop_v1 s2 else s2))))"

section \<open>Properties\<close>

subsection \<open>Fields of an instruction word\<close>

lemma field4_less: "unat (bits instruction k 0xF) < 16"
  unfolding bits_def
  by (rule order_le_less_trans [OF word_and_le1 [THEN word_le_nat_alt [THEN iffD1]]]) simp

lemma field3_less: "unat (bits instruction k 0x7) < 8"
  unfolding bits_def
  by (rule order_le_less_trans [OF word_and_le1 [THEN word_le_nat_alt [THEN iffD1]]]) simp

lemma field4_word_less: "bits instruction k 0xF < 64"
  using field4_less [of instruction k] by (simp add: word_less_nat_alt)

lemma field4_uint: "uint (bits instruction k 0xF) < 16"
  unfolding bits_def
  by (rule order_le_less_trans [OF word_and_le1 [THEN word_le_def [THEN iffD1]]]) simp

lemma low4_less: "unat ((instruction :: u32) AND 0xF) < 16"
  by (rule order_le_less_trans [OF word_and_le1 [THEN word_le_nat_alt [THEN iffD1]]]) simp

lemma low3_less: "unat ((instruction :: u32) AND 0x7) < 8"
  by (rule order_le_less_trans [OF word_and_le1 [THEN word_le_nat_alt [THEN iffD1]]]) simp

lemma channel_byte17:
  fixes r :: u32
  assumes "unat r < 16"
  shows "unat (ucast (r * 17) :: u8) = unat r * 17"
  using assms by (simp add: unat_word_ariths unsigned_ucast_eq take_bit_eq_mod)

lemma channel_byte36:
  fixes r :: u32
  assumes "unat r < 8"
  shows "unat (ucast (r * 36) :: u8) = unat r * 36"
  using assms by (simp add: unat_word_ariths unsigned_ucast_eq take_bit_eq_mod)

lemma scaled_spec_consts:
  "scaled_spec 4 v = v * 17" "scaled_spec 3 v = v * 36" 
  by (simp_all add: scaled_spec_def)

subsection \<open>Slices\<close>

lemma clamp_index_le: "clamp_index n i \<le> n"
  unfolding clamp_index_def by auto

lemma Suc4: "Suc (Suc (Suc (Suc n))) = n + 4"
  by simp

lemma setslice_in_range:
  assumes "0 \<le> a" and "a + int (length vs) \<le> int (length xs)"
  shows "setslice xs a (a + int (length vs)) vs
         = Inr (take (nat a) xs @ vs @ drop (nat a + length vs) xs)"
  using assms by (auto simp add: setslice_def clamp_index_def Let_def nat_add_distrib)

lemma setslice_length:
  assumes "setslice xs a b vs = Inr ys"
  shows "length ys = length xs"
proof -
  define lo hi where "lo = clamp_index (length xs) a" and "hi = clamp_index (length xs) b"
  have b: "lo \<le> length xs" "hi \<le> length xs"
    by (simp_all add: lo_def hi_def clamp_index_le)
  have "(ys = take lo xs @ vs @ drop (lo + (hi - lo)) xs \<and> length vs = hi - lo)
      \<or> ys = take lo xs @ replicate (hi - lo) (hd vs) @ drop (lo + (hi - lo)) xs"
    using assms unfolding setslice_def Let_def lo_def [symmetric] hi_def [symmetric]
    by (auto split: if_splits)
  then show ?thesis
    using b by auto
qed

lemma getslice_in_range:
  assumes "0 \<le> a" and "a + int k \<le> int (length xs)"
  shows "getslice xs a (a + int k) = take k (drop (nat a) xs)"
  using assms by (auto simp add: getslice_def clamp_index_def Let_def nat_add_distrib)

lemma getslice_length_in_range:
  assumes "0 \<le> a" and "a + int k \<le> int (length xs)"
  shows "length (getslice xs a (a + int k)) = k"
proof -
  have "nat a + k \<le> length xs"
    using assms by linarith
  then show ?thesis
    unfolding getslice_in_range [OF assms] by simp
qed

lemma slice_outside_write:
  assumes "length vs = k" and "a + k \<le> length xs" and "p + 4 \<le> a \<or> a + k \<le> p"
  shows "take 4 (drop p (take n (take a xs @ vs @ drop (a + k) xs)))
         = take 4 (drop p (take n xs))"
proof -
  define W where "W = take a xs @ vs @ drop (a + k) xs"
  have lenW: "length W = length xs"
    using assms by (simp add: W_def)
  have nthW: "W ! j = xs ! j" if "j < a \<or> a + k \<le> j" for j
    using assms that by (auto simp add: W_def nth_append)
  have "take 4 (drop p (take n W)) = take 4 (drop p (take n xs))"
  proof (rule nth_equalityI)
    show "length (take 4 (drop p (take n W))) = length (take 4 (drop p (take n xs)))"
      by (simp add: lenW)
  next
    fix i
    assume "i < length (take 4 (drop p (take n W)))"
    then have i: "i < 4" "p + i < n" "p + i < length xs"
      by (auto simp add: lenW)
    have "p + i < a \<or> a + k \<le> p + i"
      using assms(3) i(1) by linarith
    then have "W ! (p + i) = xs ! (p + i)"
      by (rule nthW)
    then show "take 4 (drop p (take n W)) ! i = take 4 (drop p (take n xs)) ! i"
      using i by (simp add: lenW)
  qed
  then show ?thesis by (simp only: W_def)
qed

lemma slice_of_write:
  assumes "length vs = 4" and "a + 4 \<le> n" and "n \<le> length xs"
  shows "take 4 (drop a (take n (take a xs @ vs @ drop (a + 4) xs))) = vs"
  using assms by (simp add: min_def)

subsection \<open>Words and bytes\<close>

lemma length_bytes_of_uint32 [simp]: "length (bytes_of_uint32 v) = 4"
  by (simp add: bytes_of_uint32_def)

lemma bytes_roundtrip4:
  "bytes_of_uint32 (uint32_of_bytes [a, b, c, d]) = [a, b, c, d]"
  unfolding bytes_of_uint32_def uint32_of_bytes_def
  by (simp; intro conjI; rule bit_word_eqI; simp add: bit_simps; auto dest: bit_imp_le_length)

lemma bytes_roundtrip:
  assumes "length bs = 4"
  shows "bytes_of_uint32 (uint32_of_bytes bs) = bs"
proof -
  obtain a b c d where "bs = [a, b, c, d]"
    using assms by (auto simp add: length_Suc_conv numeral_eq_Suc)
  then show ?thesis by (simp only: bytes_roundtrip4)
qed

lemma bytes_of_zero: "bytes_of_uint32 0 = [0, 0, 0, 0]"
  by (simp add: bytes_of_uint32_def)

lemma word_of_zero_bytes: "uint32_of_bytes (replicate 4 0) = 0"
  by (simp add: uint32_of_bytes_def numeral_eq_Suc)

lemma frombuffer_word:
  assumes "length buf = 4"
  shows "frombuffer_uint32_0 buf = Inr (uint32_of_bytes buf)"
  using assms by (auto simp add: frombuffer_uint32_0_def)

subsection \<open>Memory accesses\<close>

lemma write_bytes_in_range:
  assumes "0 \<le> a" and "a + int (length vs) \<le> int (length xs)"
  shows "write_bytes xs a vs = Inr (take (nat a) xs @ vs @ drop (nat a + length vs) xs)"
  using assms setslice_in_range [OF assms] by (simp add: write_bytes_def)

lemma write_bytes_length:
  assumes "write_bytes m a vs = Inr m'"
  shows "length m' = length m"
  using assms setslice_length
  by (auto simp add: write_bytes_def split: if_splits)

lemma write_uint32_length:
  assumes "write_uint32 nep50 m a v = Inr m'"
  shows "length m' = length m"
  using assms setslice_length
  by (auto simp add: write_uint32_def split: if_splits)

lemma num_add_no_wrap:
  assumes "\<not> (nep50 \<and> 2 ^ 32 \<le> uint a + 4)"
  shows "num_val (num_add nep50 (NpUint32 a) 4) = uint a + 4"
proof (cases nep50)
  case True
  then have "uint a + 4 < 2 ^ 32" using assms by simp
  then have "uint (a + 4) = uint a + 4"
    by (simp add: uint_word_ariths)
  then show ?thesis using True by simp
next
  case False
  then show ?thesis by simp
qed

lemma read_uint32_PyInt:
  "\<exists>v. read_uint32 nep50 m (PyInt a) = Inr v"
proof (cases "a < 0 \<or> a + 4 > int (length m)")
  case True
  then show ?thesis by (simp add: read_uint32_def)
next
  case False
  then have r: "0 \<le> a" "a + int 4 \<le> int (length m)" by simp_all
  have "length (getslice m a (a + 4)) = 4"
    using getslice_length_in_range [OF r] by simp
  then show ?thesis
    using False by (simp add: read_uint32_def frombuffer_word)
qed

lemma read_uint32_NpUint32:
  assumes "\<not> (nep50 \<and> 2 ^ 32 \<le> uint a + 4)"
  shows "\<exists>v. read_uint32 nep50 m (NpUint32 a) = Inr v"
proof (cases "uint a + 4 > int (length m)")
  case True
  then show ?thesis
    unfolding read_uint32_def num_add_no_wrap [OF assms] by simp
next
  case False
  then have r: "0 \<le> uint a" "uint a + int 4 \<le> int (length m)" by simp_all
  have "length (getslice m (uint a) (uint a + 4)) = 4"
    using getslice_length_in_range [OF r] by simp
  then show ?thesis
    using False unfolding read_uint32_def num_add_no_wrap [OF assms]
    by (simp add: frombuffer_word)
qed

lemma write_uint32_NpUint32:
  assumes "\<not> (nep50 \<and> 2 ^ 32 \<le> uint a + 4)"
  shows "\<exists>m'. write_uint32 nep50 m (NpUint32 a) v = Inr m'"
proof (cases "uint a + 4 > int (length m)")
  case True
  then show ?thesis
    unfolding write_uint32_def num_add_no_wrap [OF assms] by simp
next
  case False
  then have r: "0 \<le> uint a" "uint a + int (length (bytes_of_uint32 v)) \<le> int (length m)"
    by (simp_all add: bytes_of_uint32_def)
  show ?thesis
    using False setslice_in_range [OF r]
    unfolding write_uint32_def num_add_no_wrap [OF assms]
    by (simp add: bytes_of_uint32_def)
qed

lemma write_uint32_in_range:
  assumes "uint a + 4 \<le> int (length m)" and "length m < 2 ^ 32"
  shows "write_uint32 nep50 m (NpUint32 a) v
         = Inr (take (unat a) m @ bytes_of_uint32 v @ drop (unat a + 4) m)"
proof -
  have nw: "\<not> (nep50 \<and> 2 ^ 32 \<le> uint a + 4)"
    using assms by simp
  have r: "0 \<le> uint a" "uint a + int (length (bytes_of_uint32 v)) \<le> int (length m)"
    using assms by simp_all
  show ?thesis
    using assms(1) setslice_in_range [OF r]
    unfolding write_uint32_def num_add_no_wrap [OF nw]
    by simp
qed

lemma write_uint32_PyInt_in_range:
  assumes "a + 4 \<le> length m"
  shows "write_uint32 nep50 m (PyInt (int a)) v
         = Inr (take a m @ bytes_of_uint32 v @ drop (a + 4) m)"
proof -
  have r: "0 \<le> int a" "int a + int (length (bytes_of_uint32 v)) \<le> int (length m)"
    using assms by simp_all
  show ?thesis
    using assms setslice_in_range [OF r]
    by (simp add: write_uint32_def)
qed

lemma write_uint32_hdr_in_range:
  assumes "i + 4 \<le> length m"
  shows "write_uint32_hdr nep50 m (PyInt (int i)) v = write_uint32 nep50 m (PyInt (int i)) v"
  using assms by (simp add: write_uint32_hdr_def write_uint32_def)

subsection \<open>The shape of the machine\<close>

lemma machine_ok_simps [simp]:
  "machine_ok (advance s) = machine_ok s"
  "machine_ok (log_put e s) = machine_ok s"
  "machine_ok (status_put e s) = machine_ok s"
  "machine_ok (s\<lparr>pc := p\<rparr>) = machine_ok s"
  "machine_ok (s\<lparr>is_running := r\<rparr>) = machine_ok s"
  "machine_ok (s\<lparr>game_loaded := g\<rparr>) = machine_ok s"
  "machine_ok (s\<lparr>log_queue := lq\<rparr>) = machine_ok s"
  "machine_ok (s\<lparr>status_queue := sq\<rparr>) = machine_ok s"
  by (simp_all add: machine_ok_def advance_def log_put_def status_put_def mem_bytes_def)

lemma machine_ok_set_mem:
  assumes "machine_ok s" and "length m = length (mem_bytes s)"
  shows "machine_ok (set_mem s m)"
  using assms by (simp add: machine_ok_def set_mem_def mem_bytes_def)

lemma machine_ok_set_reg:
  assumes "machine_ok s" and "set_reg s i v = Inr s'"
  shows "machine_ok s'"
  using assms by (auto simp add: machine_ok_def set_reg_def mem_bytes_def split: if_splits)

lemma mem_bytes_log_put [simp]: "mem_bytes (log_put e s) = mem_bytes s"
  by (simp add: mem_bytes_def log_put_def)

lemma init_ok: "machine_ok (Emulator_init lq sq)"
  by (simp add: machine_ok_def Emulator_init_def mem_bytes_def)

lemma control_ok:
  assumes "machine_ok s"
  shows "machine_ok (start s)" and "machine_ok (pause s)" and "machine_ok (stop s)"
  using assms by (simp_all add: start_def pause_def stop_def)

lemma fb_hdr:
  assumes "machine_ok_hdr s"
  shows "framebuffer_bytes (advance (set_mem s m)) = take (64 * 64 * 4) m"
  using assms
  by (simp add: framebuffer_bytes_def view_bytes_def machine_ok_hdr_def advance_def
      set_mem_def mem_bytes_def)

lemma fb_hdr0:
  assumes "machine_ok_hdr s"
  shows "framebuffer_bytes s = take (64 * 64 * 4) (mem_bytes s)"
  using assms
  by (simp add: framebuffer_bytes_def view_bytes_def machine_ok_hdr_def mem_bytes_def)

lemma fb_main:
  assumes "machine_ok s"
  shows "framebuffer_bytes (advance (set_mem s m)) = take (128 * 128 * 4) m"
  using assms
  by (simp add: framebuffer_bytes_def view_bytes_def machine_ok_def advance_def
      set_mem_def mem_bytes_def)

lemma fb_main0:
  assumes "machine_ok s"
  shows "framebuffer_bytes s = take (128 * 128 * 4) (mem_bytes s)"
  using assms
  by (simp add: framebuffer_bytes_def view_bytes_def machine_ok_def mem_bytes_def)

lemma get_reg_ok:
  assumes "machine_ok s"
  shows "get_reg s (bits i k 0xF) = Inr (registers s ! unat (bits i k 0xF))"
  using assms field4_less [of i k] by (simp add: get_reg_def machine_ok_def)

lemma set_reg_ok:
  assumes "machine_ok s"
  shows "set_reg s (bits i k 0xF) v = Inr (s\<lparr>registers := (registers s)[unat (bits i k 0xF) := v]\<rparr>)"
  using assms field4_less [of i k] by (simp add: set_reg_def machine_ok_def)

subsection \<open>Single instructions\<close>

lemma ebind_Inr:
  "ebind m f = Inr y \<longleftrightarrow> (\<exists>x. m = Inr x \<and> f x = Inr y)"
  by (cases m) (simp_all add: ebind_def)

lemma setpixel_hdr_exec:
  assumes op: "bits instruction 24 0xFF = 5" and ok: "machine_ok_hdr s"
  shows "execute_instruction_hdr nep50 s instruction =
     Inr (advance (set_mem s
       (take (unat (bits instruction 16 0xF) * 256 + unat (bits instruction 20 0xF) * 4) (mem_bytes s)
        @ [ucast (bits instruction 12 0xF * 17), ucast (bits instruction 8 0xF * 17),
           ucast (bits instruction 4 0xF * 17), ucast ((instruction AND 0xF) * 17)]
        @ drop (unat (bits instruction 16 0xF) * 256 + unat (bits instruction 20 0xF) * 4 + 4)
            (mem_bytes s))))"
proof -
  let ?x = "bits instruction 20 0xF" and ?y = "bits instruction 16 0xF"
  let ?vs = "[ucast (bits instruction 12 0xF * 17), ucast (bits instruction 8 0xF * 17),
           ucast (bits instruction 4 0xF * 17), ucast ((instruction AND 0xF) * 17)] :: u8 list"
  let ?a = "uint ?y * 64 * 4 + uint ?x * 4"
  have len: "length (mem_bytes s) = 65536"
    using ok by (simp add: machine_ok_hdr_def)
  have xb: "unat ?x < 16" and yb: "unat ?y < 16"
    by (rule field4_less)+
  have xi: "uint ?x < 16" and yi: "uint ?y < 16"
    by (rule field4_uint)+
  have a0: "0 \<le> ?a" by simp
  have a1: "?a + int (length ?vs) \<le> int (length (mem_bytes s))"
    using xi yi len by simp
  have w: "write_bytes_hdr (mem_bytes s) ?a ?vs
      = Inr (take (nat ?a) (mem_bytes s) @ ?vs @ drop (nat ?a + 4) (mem_bytes s))"
    using setslice_in_range [OF a0 a1] by (simp add: write_bytes_hdr_def Suc4)
  have n: "nat ?a = unat ?y * 256 + unat ?x * 4"
    by (simp add: nat_add_distrib nat_mult_distrib)
  have e: "execute_instruction_hdr nep50 s instruction =
      ebind (write_bytes_hdr (mem_bytes s) ?a ?vs) (\<lambda>m. Inr (advance (set_mem s m)))"
    using op field4_word_less [of instruction 20] field4_word_less [of instruction 16]
    by (simp add: execute_instruction_hdr_def Let_def)
  show ?thesis
    unfolding e w n by (simp add: ebind_def)
qed

lemma setpixel_exec:
  assumes op: "bits instruction 24 0xFF = 5" and ok: "machine_ok s"
    and gx: "bits instruction 20 0xFF < 128" and gy: "bits instruction 12 0xFF < 128"
  shows "execute_instruction nep50 s instruction =
     Inr (advance (set_mem s
       (take (unat (bits instruction 12 0xFF) * 512 + unat (bits instruction 20 0xFF) * 4) (mem_bytes s)
        @ [ucast (bits instruction 9 0x7 * 36), ucast (bits instruction 6 0x7 * 36),
           ucast (bits instruction 3 0x7 * 36), ucast ((instruction AND 0x7) * 36)]
        @ drop (unat (bits instruction 12 0xFF) * 512 + unat (bits instruction 20 0xFF) * 4 + 4)
            (mem_bytes s))))"
proof -
  let ?x = "bits instruction 20 0xFF" and ?y = "bits instruction 12 0xFF"
  let ?vs = "[ucast (bits instruction 9 0x7 * 36), ucast (bits instruction 6 0x7 * 36),
           ucast (bits instruction 3 0x7 * 36), ucast ((instruction AND 0x7) * 36)] :: u8 list"
  let ?a = "uint ?y * 128 * 4 + uint ?x * 4"
  have len: "length (mem_bytes s) = 131072"
    using ok by (simp add: machine_ok_def)
  have xi: "uint ?x < 128" and yi: "uint ?y < 128"
    using gx gy by (simp_all add: word_less_def)
  have a0: "0 \<le> ?a" by simp
  have a1: "?a + int (length ?vs) \<le> int (length (mem_bytes s))"
    using xi yi len by simp
  have w: "write_bytes (mem_bytes s) ?a ?vs
      = Inr (take (nat ?a) (mem_bytes s) @ ?vs @ drop (nat ?a + 4) (mem_bytes s))"
    using write_bytes_in_range [OF a0 a1] by (simp add: Suc4)
  have n: "nat ?a = unat ?y * 512 + unat ?x * 4"
    by (simp add: nat_add_distrib nat_mult_distrib)
  have e: "execute_instruction nep50 s instruction =
      ebind (write_bytes (mem_bytes s) ?a ?vs) (\<lambda>m. Inr (advance (set_mem s m)))"
    using op gx gy
    by (simp add: execute_instruction_def Let_def)
  show ?thesis
    unfolding e w n by (simp add: ebind_def)
qed

lemma store_exec:
  assumes op: "bits i 24 0xFF = 4" and ok: "machine_ok s"
    and a: "uint (registers s ! unat (bits i 16 0xF)) + 4 \<le> 128 * 1024"
  shows "execute_instruction nep50 s i =
     Inr (advance (set_mem s
       (take (unat (registers s ! unat (bits i 16 0xF))) (mem_bytes s)
        @ bytes_of_uint32 (registers s ! unat (bits i 20 0xF))
        @ drop (unat (registers s ! unat (bits i 16 0xF)) + 4) (mem_bytes s))))"
proof -
  have len: "length (mem_bytes s) = 131072"
    using ok by (simp add: machine_ok_def)
  have w: "write_uint32 nep50 (mem_bytes s) (NpUint32 (registers s ! unat (bits i 16 0xF)))
            (registers s ! unat (bits i 20 0xF))
       = Inr (take (unat (registers s ! unat (bits i 16 0xF))) (mem_bytes s)
        @ bytes_of_uint32 (registers s ! unat (bits i 20 0xF))
        @ drop (unat (registers s ! unat (bits i 16 0xF)) + 4) (mem_bytes s))"
    by (rule write_uint32_in_range) (use a len in simp_all)
  show ?thesis
    using op by (simp add: execute_instruction_def Let_def ebind_def get_reg_ok [OF ok] w)
qed

lemma pixels_apart:
  fixes x y x0 y0 :: nat
  assumes "x0 < 16" and "y0 < 16" and "x < 64" and "15 < x \<or> 15 < y"
  shows "(y * 64 + x) * 4 + 4 \<le> y0 * 256 + x0 * 4 \<or> y0 * 256 + x0 * 4 + 4 \<le> (y * 64 + x) * 4"
proof -
  have e: "(y * 64 + x) * 4 = 256 * y + 4 * x"
    by simp
  consider (lt) "y < y0" | (eq) "y = y0" | (gt) "y0 < y"
    by linarith
  then show ?thesis
  proof cases
    case lt
    then show ?thesis unfolding e using assms by linarith
  next
    case eq
    then show ?thesis unfolding e using assms by linarith
  next
    case gt
    then show ?thesis unfolding e using assms by linarith
  qed
qed

lemma execute_instruction_ok:
  assumes ok: "machine_ok s" and e: "execute_instruction nep50 s i = Inr s'"
  shows "machine_ok s'"
proof -
  let ?op = "bits i 24 0xFF"
  consider (nop) "?op = 0" | (mov) "?op = 1" | (add) "?op = 2" | (ldr) "?op = 3"
    | (str) "?op = 4" | (px) "?op = 5" | (jmp) "?op = 6" | (beq) "?op = 7"
    | (other) "?op \<noteq> 0" "?op \<noteq> 1" "?op \<noteq> 2" "?op \<noteq> 3" "?op \<noteq> 4" "?op \<noteq> 5"
        "?op \<noteq> 6" "?op \<noteq> 7"
    by blast
  then show ?thesis
  proof cases
    case nop
    then show ?thesis using ok e by (auto simp add: execute_instruction_def)
  next
    case mov
    then show ?thesis using ok e
      by (auto simp add: execute_instruction_def Let_def ebind_Inr dest: machine_ok_set_reg)
  next
    case add
    then show ?thesis using ok e
      by (auto simp add: execute_instruction_def Let_def ebind_Inr dest: machine_ok_set_reg)
  next
    case ldr
    then show ?thesis using ok e
      by (auto simp add: execute_instruction_def Let_def ebind_Inr dest: machine_ok_set_reg)
  next
    case str
    then show ?thesis using ok e
      by (auto simp add: execute_instruction_def Let_def ebind_Inr
          dest!: write_uint32_length intro: machine_ok_set_mem)
  next
    case px
    then show ?thesis using ok e
      by (auto simp add: execute_instruction_def Let_def ebind_Inr
          dest!: write_bytes_length intro: machine_ok_set_mem split: if_splits)
  next
    case jmp
    then show ?thesis using ok e by (auto simp add: execute_instruction_def)
  next
    case beq
    then show ?thesis using ok e
      by (auto simp add: execute_instruction_def Let_def ebind_Inr split: if_splits)
  next
    case other
    then show ?thesis using ok e by (auto simp add: execute_instruction_def Let_def)
  qed
qed

lemma execute_instruction_completes:
  assumes ok: "machine_ok s" and nw: "\<not> address_wraps nep50 s i"
  shows "\<exists>s'. execute_instruction nep50 s i = Inr s'"
proof -
  let ?op = "bits i 24 0xFF"
  consider (ldr) "?op = 3" | (str) "?op = 4" | (px) "?op = 5"
    | (other) "?op \<noteq> 3" "?op \<noteq> 4" "?op \<noteq> 5"
    by blast
  then show ?thesis
  proof cases
    case ldr
    then have "\<not> (nep50 \<and> 2 ^ 32 \<le> uint (registers s ! unat (bits i 16 0xF)) + 4)"
      using nw by (simp add: address_wraps_def)
    from read_uint32_NpUint32 [OF this]
    obtain v where "read_uint32 nep50 (mem_bytes s) (NpUint32 (registers s ! unat (bits i 16 0xF))) = Inr v"
      by blast
    then show ?thesis
      using ldr by (simp add: execute_instruction_def Let_def ebind_def get_reg_ok [OF ok] set_reg_ok [OF ok])
  next
    case str
    then have "\<not> (nep50 \<and> 2 ^ 32 \<le> uint (registers s ! unat (bits i 16 0xF)) + 4)"
      using nw by (simp add: address_wraps_def)
    from write_uint32_NpUint32 [OF this]
    obtain m' where "write_uint32 nep50 (mem_bytes s) (NpUint32 (registers s ! unat (bits i 16 0xF)))
        (registers s ! unat (bits i 20 0xF)) = Inr m'"
      by blast
    then show ?thesis
      using str by (simp add: execute_instruction_def Let_def ebind_def get_reg_ok [OF ok])
  next
    case px
    show ?thesis
    proof (cases "bits i 20 0xFF < 128 \<and> bits i 12 0xFF < 128")
      case True
      then show ?thesis using setpixel_exec [OF px ok, of nep50] by simp
    next
      case False
      then show ?thesis using px by (auto simp add: execute_instruction_def Let_def)
    qed
  next
    case other
    then show ?thesis
      by (simp add: execute_instruction_def Let_def ebind_def get_reg_ok [OF ok] set_reg_ok [OF ok])
  qed
qed

subsection \<open>The loading loop\<close>

lemma load_words_length:
  assumes "load_words nep50 d idx m = Inr m'"
  shows "length m' = length m"
  using assms
proof (induction idx arbitrary: m)
  case Nil
  then show ?case by simp
next
  case (Cons i idx)
  then show ?case
    by (auto simp add: ebind_Inr dest!: write_uint32_length)
qed

lemma store_all_length:
  assumes "store_all nep50 ws m = Inr m'"
  shows "length m' = length m"
  using assms
proof (induction ws arbitrary: m)
  case Nil
  then show ?case by simp
next
  case (Cons w ws)
  then show ?case
    by (cases w) (auto simp add: ebind_Inr dest!: write_uint32_length)
qed

lemma load_word_step:
  assumes "i + 4 \<le> length d" and "i + 4 \<le> length m"
  shows "load_words nep50 d (i # idx) m
         = load_words nep50 d idx (take i m @ take 4 (drop i d) @ drop (i + 4) m)"
proof -
  have r: "0 \<le> int i" "int i + int 4 \<le> int (length d)"
    using assms by simp_all
  have g: "getslice d (int i) (int i + 4) = take 4 (drop i d)"
    using getslice_in_range [OF r] by simp
  have l: "length (take 4 (drop i d)) = 4"
    using assms by simp
  show ?thesis
    using assms(1)
    by (simp add: g frombuffer_word [OF l] ebind_def write_uint32_PyInt_in_range [OF assms(2)]
        bytes_roundtrip [OF l] del: take_drop)
qed

lemma load_words_full:
  assumes "4 * (j + k) \<le> length d" and "4 * (j + k) \<le> length m"
  shows "load_words nep50 d (map (\<lambda>t. 4 * t) [j..<j + k]) m
         = Inr (take (4 * j) m @ take (4 * k) (drop (4 * j) d) @ drop (4 * (j + k)) m)"
  using assms
proof (induction k arbitrary: j m)
  case 0
  then show ?case by simp
next
  case (Suc k)
  let ?m1 = "take (4 * j) m @ take 4 (drop (4 * j) d) @ drop (4 * j + 4) m"
  have b: "4 * j + 4 \<le> length d" "4 * j + 4 \<le> length m"
    using Suc.prems by simp_all
  have len1: "length ?m1 = length m"
    using b by simp
  have up: "[j..<j + Suc k] = j # [Suc j..<Suc j + k]"
    by (simp add: upt_conv_Cons)
  have "load_words nep50 d (map (\<lambda>t. 4 * t) [j..<j + Suc k]) m
      = load_words nep50 d (map (\<lambda>t. 4 * t) [Suc j..<Suc j + k]) ?m1"
    unfolding up list.map by (rule load_word_step [OF b])
  also have "\<dots> = Inr (take (4 * Suc j) ?m1 @ take (4 * k) (drop (4 * Suc j) d)
                @ drop (4 * (Suc j + k)) ?m1)"
    by (rule Suc.IH) (use Suc.prems len1 in simp_all)
  also have "take (4 * Suc j) ?m1 = take (4 * j) m @ take 4 (drop (4 * j) d)"
    using b by simp
  also have "drop (4 * (Suc j + k)) ?m1 = drop (4 * (j + Suc k)) m"
    using b by (simp add: ac_simps)
  also have "(take (4 * j) m @ take 4 (drop (4 * j) d)) @ take (4 * k) (drop (4 * Suc j) d)
        @ drop (4 * (j + Suc k)) m
      = take (4 * j) m @ take (4 * Suc k) (drop (4 * j) d) @ drop (4 * (j + Suc k)) m"
  proof -
    have "take (4 * Suc k) (drop (4 * j) d)
        = take 4 (drop (4 * j) d) @ take (4 * k) (drop 4 (drop (4 * j) d))"
      using take_add [of 4 "4 * k" "drop (4 * j) d"] by (simp add: add.commute)
    then show ?thesis by (simp add: add.commute)
  qed
  finally show ?case .
qed

lemma load_words_append:
  "load_words nep50 d (xs @ ys) m = ebind (load_words nep50 d xs m) (load_words nep50 d ys)"
proof (induction xs arbitrary: m)
  case Nil
  then show ?case by (simp add: ebind_def)
next
  case (Cons i xs)
  show ?case
    by (simp add: Cons.IH ebind_def split: sum.splits)
qed

lemma load_partial_word:
  assumes "\<not> i + 4 \<le> length d" and "i + 4 \<le> length m"
  shows "load_words nep50 d [i] m = Inr (take i m @ [0, 0, 0, 0] @ drop (i + 4) m)"
  using assms(1)
  by (simp add: ebind_def write_uint32_PyInt_in_range [OF assms(2)] bytes_of_zero)

lemma load_words_range4:
  assumes fit: "length d \<le> length m" and al: "4 dvd length m"
  shows "load_words nep50 d (range4 (length d)) m
     = Inr (take (4 * (length d div 4)) d
            @ replicate (if length d mod 4 = 0 then 0 else 4) 0
            @ drop (4 * ((length d + 3) div 4)) m)"
proof (cases "length d mod 4 = 0")
  case True
  let ?q = "length d div 4"
  have q: "(length d + 3) div 4 = ?q" using True by presburger
  have b: "4 * (0 + ?q) \<le> length d" "4 * (0 + ?q) \<le> length m"
    using fit by simp_all
  show ?thesis
    using load_words_full [OF b, of nep50] True
    by (simp add: range4_def q)
next
  case False
  let ?q = "length d div 4"
  let ?m1 = "take (4 * ?q) d @ drop (4 * ?q) m"
  have q: "(length d + 3) div 4 = Suc ?q" using False by presburger
  have b: "4 * (0 + ?q) \<le> length d" "4 * (0 + ?q) \<le> length m"
    using fit by simp_all
  have top: "4 * ?q + 4 \<le> length m"
    using fit al False by presburger
  have nofull: "\<not> 4 * ?q + 4 \<le> length d"
    using False by presburger
  have len1: "length ?m1 = length m"
    using b by simp
  have first: "load_words nep50 d (map (\<lambda>t. 4 * t) [0..<?q]) m = Inr ?m1"
    using load_words_full [OF b, of nep50] by simp
  have last: "load_words nep50 d [4 * ?q] ?m1
      = Inr (take (4 * ?q) ?m1 @ [0, 0, 0, 0] @ drop (4 * ?q + 4) ?m1)"
    by (rule load_partial_word [OF nofull]) (use top len1 in simp)
  have t: "take (4 * ?q) ?m1 = take (4 * ?q) d"
    using b by simp
  have dr: "drop (4 * ?q + 4) ?m1 = drop (4 * Suc ?q) m"
    using b by (simp add: ac_simps)
  have r: "range4 (length d) = map (\<lambda>t. 4 * t) [0..<?q] @ [4 * ?q]"
    by (simp add: range4_def q)
  have four: "replicate 4 (0 :: u8) = [0, 0, 0, 0]"
    by (simp add: numeral_eq_Suc)
  show ?thesis
    unfolding r load_words_append first q
    using False by (simp add: ebind_def last t dr four del: load_words.simps)
qed

lemma load_game_result:
  assumes ok: "machine_ok s" and fit: "length game_data \<le> 128 * 1024"
  shows "load_game nep50 s game_data =
     Inr (status_put (''Program loaded'', ''success'')
           (log_put (''success'', ''Program loaded successfully.'')
             ((set_mem (log_put (''warning'', ''Loading program...'') s)
                (take (4 * (length game_data div 4)) game_data
                 @ replicate (if length game_data mod 4 = 0 then 0 else 4) 0
                 @ drop (4 * ((length game_data + 3) div 4)) (mem_bytes s)))
              \<lparr>game_loaded := True\<rparr>)))"
proof -
  have len: "length (mem_bytes s) = 131072"
    using ok by (simp add: machine_ok_def)
  have lw: "load_words nep50 game_data (range4 (length game_data)) (mem_bytes s)
     = Inr (take (4 * (length game_data div 4)) game_data
            @ replicate (if length game_data mod 4 = 0 then 0 else 4) 0
            @ drop (4 * ((length game_data + 3) div 4)) (mem_bytes s))"
    by (rule load_words_range4) (use fit len in simp_all)
  show ?thesis
    unfolding load_game_def Let_def mem_bytes_log_put lw
    by (simp add: ebind_def)
qed

lemma load_words_hdr_in_range:
  assumes "\<forall>i \<in> set idx. i + 4 \<le> length m"
  shows "load_words_hdr nep50 d idx m = load_words nep50 d idx m"
  using assms
proof (induction idx arbitrary: m)
  case Nil
  then show ?case by simp
next
  case (Cons i idx)
  have w: "write_uint32_hdr nep50 m (PyInt (int i)) v = write_uint32 nep50 m (PyInt (int i)) v" for v
    by (rule write_uint32_hdr_in_range) (use Cons.prems in simp)
  have step: "load_words_hdr nep50 d idx m' = load_words nep50 d idx m'"
    if "write_uint32 nep50 m (PyInt (int i)) v = Inr m'" for v m'
    by (rule Cons.IH) (use Cons.prems write_uint32_length [OF that] in simp)
  show ?case
    by (auto simp add: w ebind_def step split: sum.splits)
qed

lemma range4_in_range:
  assumes "n \<le> l" and "4 dvd l"
  shows "\<forall>i \<in> set (range4 n). i + 4 \<le> l"
proof
  fix i assume "i \<in> set (range4 n)"
  then obtain t where "i = 4 * t" and "t < (n + 3) div 4"
    by (auto simp add: range4_def)
  then show "i + 4 \<le> l"
    using assms by presburger
qed

lemma load_game_hdr_result:
  assumes ok: "machine_ok_hdr s" and fit: "length game_data \<le> 64 * 1024"
  shows "load_game_hdr nep50 s game_data =
     Inr (status_put (''Program loaded'', ''success'')
           (log_put (''success'', ''Program loaded successfully.'')
             ((set_mem (log_put (''warning'', ''Loading program...'') s)
                (take (4 * (length game_data div 4)) game_data
                 @ replicate (if length game_data mod 4 = 0 then 0 else 4) 0
                 @ drop (4 * ((length game_data + 3) div 4)) (mem_bytes s)))
              \<lparr>game_loaded := True\<rparr>)))"
proof -
  have len: "length (mem_bytes s) = 65536"
    using ok by (simp add: machine_ok_hdr_def)
  have "load_words_hdr nep50 game_data (range4 (length game_data)) (mem_bytes s)
      = load_words nep50 game_data (range4 (length game_data)) (mem_bytes s)"
    by (rule load_words_hdr_in_range, rule range4_in_range) (use fit len in simp_all)
  also have "\<dots> = Inr (take (4 * (length game_data div 4)) game_data
            @ replicate (if length game_data mod 4 = 0 then 0 else 4) 0
            @ drop (4 * ((length game_data + 3) div 4)) (mem_bytes s))"
    by (rule load_words_range4) (use fit len in simp_all)
  finally have lw: "load_words_hdr nep50 game_data (range4 (length game_data)) (mem_bytes s)
      = Inr (take (4 * (length game_data div 4)) game_data
            @ replicate (if length game_data mod 4 = 0 then 0 else 4) 0
            @ drop (4 * ((length game_data + 3) div 4)) (mem_bytes s))" .
  show ?thesis
    unfolding load_game_hdr_def Let_def mem_bytes_log_put lw
    by (simp add: ebind_def)
qed

subsection \<open>Reachable states\<close>

lemma load_game_ok:
  assumes "machine_ok s" and "load_game nep50 s d = Inr s'"
  shows "machine_ok s'"
  using assms
  by (auto simp add: load_game_def Let_def ebind_Inr
      dest!: load_words_length intro!: machine_ok_set_mem)

lemma load_demo_ok:
  assumes "machine_ok s" and "load_demo nep50 s = Inr s'"
  shows "machine_ok s'"
  using assms
  by (auto simp add: load_demo_def ebind_Inr
      dest!: store_all_length write_uint32_length intro!: machine_ok_set_mem)

lemma run_cycle_ok:
  assumes "machine_ok s" and "run_cycle nep50 s = Inr s'"
  shows "machine_ok s'"
  using assms
  by (auto simp add: run_cycle_def ebind_Inr control_ok
      dest: execute_instruction_ok split: if_splits)

lemma reachable_ok:
  assumes "reachable nep50 s"
  shows "machine_ok s"
  using assms
proof (induction rule: reachable.induct)
  case init
  show ?case by (rule init_ok)
next
  case (load_game s game_data s')
  then show ?case by (blast intro: load_game_ok)
next
  case (load_demo s s')
  then show ?case by (blast intro: load_demo_ok)
next
  case (start s)
  then show ?case by (simp add: control_ok)
next
  case (pause s)
  then show ?case by (simp add: control_ok)
next
  case (stop s)
  then show ?case by (simp add: control_ok)
next
  case (run_cycle s s')
  then show ?case by (blast intro: run_cycle_ok)
next
  case (queues s lq sq)
  then show ?case by simp
qed

lemma run_cycle_completes:
  assumes ok: "machine_ok s"
    and nw: "\<forall>i. read_uint32 nep50 (mem_bytes s) (PyInt (pc s)) = Inr i \<longrightarrow> \<not> address_wraps nep50 s i"
  shows "\<exists>s'. run_cycle nep50 s = Inr s'"
proof (cases "is_running s")
  case False
  then show ?thesis by (simp add: run_cycle_def)
next
  case True
  obtain i where i: "read_uint32 nep50 (mem_bytes s) (PyInt (pc s)) = Inr i"
    using read_uint32_PyInt by blast
  then have "\<not> address_wraps nep50 s i" using nw by blast
  from execute_instruction_completes [OF ok this]
  obtain s1 where "execute_instruction nep50 s i = Inr s1" by blast
  then show ?thesis
    using True i by (simp add: run_cycle_def ebind_def)
qed

subsection \<open>The memory of \<open>v1.py\<close>\<close>

lemma v1_first_word:
  assumes "0 < n"
  shows "hd (take k (concat (map bytes_of_uint64 ((replicate n 0)[0 := v]))))
         = hd (take k (bytes_of_uint64 v))"
proof -
  obtain n' where n: "n = Suc n'"
    using assms by (cases n) simp_all
  show ?thesis
    unfolding n by (cases k) (simp_all add: bytes_of_uint64_def)
qed

lemma v1_first_cycle:
  "run_cycle_v1 True 3 2 10 20 30 ((Emulator_init_v1 [] [])\<lparr>is_running_v1 := True\<rparr>)
   = Inr ((Emulator_init_v1 [] [])\<lparr>is_running_v1 := True,
        log_queue_v1 := [(''success'', ''Executing instruction: 0x0000000000000000'')],
        pc_v1 := NpCounter 8,
        framebuffer_v1 := replicate 524 0 @ [10, 20, 30, 255] @ replicate 15856 0\<rparr>)"
  by (simp add: run_cycle_v1_def Emulator_init_v1_def index_v1_def execute_instruction_v1_def
      random_pixel_v1_def ebind_def hex16_def hex_digit_def Let_def upt_rec [of _ 16])

subsection \<open>Out-of-range memory accesses\<close>

text \<open>
  C1 (as amended). In the bounds-checked \<open>Memory\<close> of \<open>PS5EMU1.06.29.251.0.py\<close>, for
  every Python-integer address \<open>A\<close> with \<open>A < 0\<close> or \<open>A + 4\<close> beyond the memory size,
  \<open>read_uint32\<close> returns 0 and \<open>write_uint32\<close> returns with the memory unchanged,
  whatever the value; for every byte sequence \<open>vs\<close> with \<open>A < 0\<close> or \<open>A + len(vs)\<close>
  beyond the memory size, \<open>write_bytes\<close> returns with the memory unchanged; and the
  same holds for an address \<open>w\<close> read from a register, as long as \<open>w + 4\<close> is computed
  without wrap-around. No exception is raised.
\<close>

theorem out_of_range_access_checked:
  "(A < 0 \<or> A + 4 > int (length mem) \<longrightarrow>
      read_uint32 nep50 mem (PyInt A) = Inr 0 \<and> write_uint32 nep50 mem (PyInt A) v = Inr mem)
   \<and> (A < 0 \<or> A + int (length vs) > int (length mem) \<longrightarrow> write_bytes mem A vs = Inr mem)
   \<and> (\<not> (nep50 \<and> 2 ^ 32 \<le> uint w + 4) \<and> uint w + 4 > int (length mem) \<longrightarrow>
      read_uint32 nep50 mem (NpUint32 w) = Inr 0
      \<and> write_uint32 nep50 mem (NpUint32 w) v = Inr mem)"
proof (intro conjI impI)
  assume "A < 0 \<or> A + 4 > int (length mem)"
  then show "read_uint32 nep50 mem (PyInt A) = Inr 0"
    and "write_uint32 nep50 mem (PyInt A) v = Inr mem"
    by (simp_all add: read_uint32_def write_uint32_def)
next
  assume "A < 0 \<or> A + int (length vs) > int (length mem)"
  then show "write_bytes mem A vs = Inr mem"
    by (simp add: write_bytes_def)
next
  assume h: "\<not> (nep50 \<and> 2 ^ 32 \<le> uint w + 4) \<and> uint w + 4 > int (length mem)"
  then have e: "num_val (num_add nep50 (NpUint32 w) 4) = uint w + 4"
    by (intro num_add_no_wrap) simp
  show "read_uint32 nep50 mem (NpUint32 w) = Inr 0"
    and "write_uint32 nep50 mem (NpUint32 w) v = Inr mem"
    unfolding read_uint32_def write_uint32_def e using h by simp_all
qed

theorem out_of_range_access_checked_witness:
  "(6::int) + 4 > int (length [1, 2, 3, 4, 5, 6, 7, 8 :: u8])
   \<and> read_uint32 True [1, 2, 3, 4, 5, 6, 7, 8] (PyInt 6) = Inr 0
   \<and> write_uint32 True [1, 2, 3, 4, 5, 6, 7, 8] (PyInt 6) 9 = Inr [1, 2, 3, 4, 5, 6, 7, 8]
   \<and> write_bytes [1, 2, 3, 4, 5, 6, 7, 8] 6 [9, 9, 9] = Inr [1, 2, 3, 4, 5, 6, 7, 8]
   \<and> read_uint32 True [1, 2, 3, 4, 5, 6, 7, 8] (NpUint32 6) = Inr 0
   \<and> write_uint32 True [1, 2, 3, 4, 5, 6, 7, 8] (NpUint32 6) 9 = Inr [1, 2, 3, 4, 5, 6, 7, 8]"
  using out_of_range_access_checked [of 6 "[1, 2, 3, 4, 5, 6, 7, 8]" True 9 "[9, 9, 9]" 6]
  by simp

text \<open>
  The \<open>Memory\<close> of \<open>EMUPS55.17.25V0hdr.py\<close> has no check. With its 64KB, a read or a
  write of the word at 65534 reaches past the end: the slice has two bytes and NumPy
  raises \<open>ValueError\<close>.
\<close>

theorem out_of_range_access_unchecked_raises:
  "read_uint32_hdr False (replicate (64 * 1024) 0) (PyInt 65534) = Inl ValueError
   \<and> write_uint32_hdr False (replicate (64 * 1024) 0) (PyInt 65534) 1 = Inl ValueError"
  by (simp add: read_uint32_hdr_def write_uint32_hdr_def getslice_def setslice_def
      clamp_index_def frombuffer_uint32_0_def bytes_of_uint32_def)

text \<open>
  There a negative address counts from the end of the array, so a write at \<open>-8\<close> changes the
  tail of the memory; and in the checked variant a register address within four of
  \<open>2 ^ 32\<close> passes the check when \<open>address + 4\<close> wraps, and the read raises.
\<close>

lemma negative_address_unchecked_writes_tail:
  "write_uint32_hdr False [0, 0, 0, 0, 0, 0, 0, 0] (PyInt (- 8)) 1 = Inr [1, 0, 0, 0, 0, 0, 0, 0]"
  by (simp add: write_uint32_hdr_def setslice_def clamp_index_def bytes_of_uint32_def)

lemma wrapped_register_address_raises:
  "read_uint32 True (replicate (128 * 1024) 0) (NpUint32 0xFFFFFFFE) = Inl IndexError"
  by (simp add: read_uint32_def getslice_def clamp_index_def frombuffer_uint32_0_def)

subsection \<open>Control flow\<close>

text \<open>
  C2. Executing an instruction with opcode 7 (BEQ), register fields \<open>A\<close> (bits 20..23)
  and \<open>B\<close> (bits 16..19) and offset field \<open>off\<close> (bits 0..15), in a state of the machine
  (16 registers, 128KB, a program counter of 32 bits): when the two registers are equal,
  the state afterwards is the state before with \<open>pc = (pc + off) mod memory_size\<close> and
  nothing is added; when they differ, \<open>pc\<close> has advanced by the instruction width,
  4 bytes.
\<close>

theorem beq_sets_pc:
  assumes "bits instruction 24 0xFF = 7" and "machine_ok s"
    and "0 \<le> pc s" and "pc s < 2 ^ 32"
  shows "execute_instruction nep50 s instruction =
     Inr (if registers s ! unat (bits instruction 20 0xF)
             = registers s ! unat (bits instruction 16 0xF)
          then s\<lparr>pc := (pc s + uint (instruction AND 0xFFFF)) mod int (length (mem_bytes s))\<rparr>
          else s\<lparr>pc := pc s + 4\<rparr>)"
  using assms field4_less [of instruction 20] field4_less [of instruction 16]
  by (simp add: execute_instruction_def Let_def get_reg_def ebind_def advance_def machine_ok_def)

theorem beq_sets_pc_witness:
  "bits (0x07000010 :: u32) 24 0xFF = 7 \<and> bits (0x07010010 :: u32) 24 0xFF = 7
   \<and> machine_ok ((Emulator_init [] [])\<lparr>registers := (replicate 16 0)[1 := 5], pc := 131068\<rparr>)
   \<and> (0::int) \<le> 131068 \<and> (131068::int) < 2 ^ 32
   \<and> execute_instruction True
        ((Emulator_init [] [])\<lparr>registers := (replicate 16 0)[1 := 5], pc := 131068\<rparr>) 0x07000010
      = Inr ((Emulator_init [] [])\<lparr>registers := (replicate 16 0)[1 := 5], pc := 12\<rparr>)
   \<and> execute_instruction True
        ((Emulator_init [] [])\<lparr>registers := (replicate 16 0)[1 := 5], pc := 131068\<rparr>) 0x07010010
      = Inr ((Emulator_init [] [])\<lparr>registers := (replicate 16 0)[1 := 5], pc := 131072\<rparr>)"
proof -
  let ?s = "(Emulator_init [] [])\<lparr>registers := (replicate 16 0)[1 := 5], pc := 131068\<rparr>"
  have ok: "machine_ok ?s"
    by (simp add: machine_ok_def Emulator_init_def mem_bytes_def)
  have p: "0 \<le> pc ?s" "pc ?s < 2 ^ 32"
    by simp_all
  have b1: "bits (0x07000010 :: u32) 24 0xFF = 7" and b2: "bits (0x07010010 :: u32) 24 0xFF = 7"
    by (simp_all add: bits_def)
  show ?thesis
    using ok b1 b2 beq_sets_pc [OF b1 ok p, of True] beq_sets_pc [OF b2 ok p, of True]
    by (simp add: bits_def Emulator_init_def mem_bytes_def)
qed

text \<open>
  C3. Executing an instruction with opcode 6 (JMP) sets \<open>pc\<close> to the address field
  (bits 0..23) and changes nothing else, whatever \<open>pc\<close> was; nothing is added
  afterwards. With the address field 16 the resulting \<open>pc\<close> is 16.
\<close>

theorem jmp_sets_pc:
  "(bits instruction 24 0xFF = 6 \<longrightarrow>
      execute_instruction nep50 s instruction = Inr (s\<lparr>pc := uint (instruction AND 0xFFFFFF)\<rparr>))
   \<and> execute_instruction nep50 s 0x06000010 = Inr (s\<lparr>pc := 16\<rparr>)"
  by (simp add: execute_instruction_def Let_def bits_def)

theorem jmp_sets_pc_witness:
  "bits (0x06ABCDEF :: u32) 24 0xFF = 6
   \<and> execute_instruction False ((Emulator_init [] [])\<lparr>pc := 40\<rparr>) 0x06ABCDEF
       = Inr ((Emulator_init [] [])\<lparr>pc := 0xABCDEF\<rparr>)"
proof -
  have b: "bits (0x06ABCDEF :: u32) 24 0xFF = 6"
    by (simp add: bits_def)
  show ?thesis
    using b jmp_sets_pc [of "0x06ABCDEF" False "(Emulator_init [] [])\<lparr>pc := 40\<rparr>"]
    by simp
qed

subsection \<open>Run state\<close>

text \<open>
  C8. When no program is loaded, \<open>start\<close> changes nothing of the machine and puts exactly
  one event, of severity error, on the log queue; when a program is loaded, the machine
  is running afterwards.
\<close>

theorem start_needs_program:
  "(\<not> game_loaded s \<longrightarrow>
      start s = s\<lparr>log_queue := log_queue s @ [(''error'', ''No program loaded!'')]\<rparr>)
   \<and> (game_loaded s \<longrightarrow> is_running (start s))"
  by (simp add: start_def log_put_def status_put_def)

theorem start_needs_program_witness:
  "\<not> game_loaded (Emulator_init [] [])
   \<and> log_queue (start (Emulator_init [] [])) = [(''error'', ''No program loaded!'')]
   \<and> \<not> is_running (start (Emulator_init [] []))
   \<and> game_loaded ((Emulator_init [] [])\<lparr>game_loaded := True\<rparr>)
   \<and> is_running (start ((Emulator_init [] [])\<lparr>game_loaded := True\<rparr>))"
  using start_needs_program [of "Emulator_init [] []"]
    start_needs_program [of "(Emulator_init [] [])\<lparr>game_loaded := True\<rparr>"]
  by (simp add: Emulator_init_def)

text \<open>
  C9 (as amended). From every state \<open>stop\<close> leaves the machine not running with
  \<open>pc = 0\<close>. A second \<open>stop\<close> changes nothing of the machine, but it puts a second
  \<open>Emulator stopped.\<close> event on the log queue and a second \<open>Stopped\<close> on the status queue.
\<close>

theorem stop_resets_and_logs_again:
  "is_running (stop s) = False \<and> pc (stop s) = 0
   \<and> stop (stop s) =
       (stop s)\<lparr>log_queue := log_queue (stop s) @ [(''error'', ''Emulator stopped.'')],
                status_queue := status_queue (stop s) @ [(''Stopped'', ''error'')]\<rparr>"
  by (simp add: stop_def log_put_def status_put_def)

text \<open>Two calls in a row do not leave the state one call leaves: the queues differ.\<close>

theorem stop_twice_differs:
  "stop (stop (Emulator_init [] [])) \<noteq> stop (Emulator_init [] [])"
proof
  assume "stop (stop (Emulator_init [] [])) = stop (Emulator_init [] [])"
  then have "log_queue (stop (stop (Emulator_init [] []))) = log_queue (stop (Emulator_init [] []))"
    by simp
  then show False
    by (simp add: stop_def log_put_def status_put_def Emulator_init_def)
qed

subsection \<open>SETPIXEL\<close>

text \<open>
  C4. The byte SETPIXEL stores for a raw channel value \<open>v\<close> of a field of \<open>w\<close> bits is
  \<open>v * floor(255 / (2 ^ w - 1))\<close>: for the 4-bit fields of \<open>EMUPS55.17.25V0hdr.py\<close> the
  four bytes of the pixel are the four fields times 17, for the 3-bit fields of
  \<open>PS5EMU1.06.29.251.0.py\<close> (when \<open>x < 128\<close> and \<open>y < 128\<close>, so that a pixel is stored)
  they are the fields times 36. The 4-bit value 15 gives 255 and the value 0 gives 0.
\<close>

theorem setpixel_channel_scaling:
  "(bits i 24 0xFF = 5 \<and> machine_ok_hdr s \<longrightarrow>
      (\<exists>s'. execute_instruction_hdr nep50 s i = Inr s' \<and>
         map unat (pixel_at 64 (framebuffer_bytes s') (unat (bits i 20 0xF)) (unat (bits i 16 0xF)))
          = map (scaled_spec 4)
              [unat (bits i 12 0xF), unat (bits i 8 0xF), unat (bits i 4 0xF), unat (i AND 0xF)]))
   \<and> (bits i 24 0xFF = 5 \<and> machine_ok t \<and> bits i 20 0xFF < 128 \<and> bits i 12 0xFF < 128 \<longrightarrow>
      (\<exists>t'. execute_instruction nep50 t i = Inr t' \<and>
         map unat (pixel_at 128 (framebuffer_bytes t') (unat (bits i 20 0xFF)) (unat (bits i 12 0xFF)))
          = map (scaled_spec 3)
              [unat (bits i 9 0x7), unat (bits i 6 0x7), unat (bits i 3 0x7), unat (i AND 0x7)]))
   \<and> scaled_spec 4 v = v * 17 \<and> scaled_spec 3 v = v * 36
   \<and> scaled_spec 4 15 = 255 \<and> scaled_spec 4 0 = 0"
proof (intro conjI impI)
  assume h: "bits i 24 0xFF = 5 \<and> machine_ok_hdr s"
  let ?x = "unat (bits i 20 0xF)" and ?y = "unat (bits i 16 0xF)"
  let ?vs = "[ucast (bits i 12 0xF * 17), ucast (bits i 8 0xF * 17),
           ucast (bits i 4 0xF * 17), ucast ((i AND 0xF) * 17)] :: u8 list"
  let ?m = "take (?y * 256 + ?x * 4) (mem_bytes s) @ ?vs @ drop (?y * 256 + ?x * 4 + 4) (mem_bytes s)"
  have ok: "machine_ok_hdr s" using h by simp
  have xb: "?x < 16" and yb: "?y < 16"
    by (rule field4_less)+
  have len: "length (mem_bytes s) = 65536"
    using ok by (simp add: machine_ok_hdr_def)
  have e: "execute_instruction_hdr nep50 s i = Inr (advance (set_mem s ?m))"
    using h by (intro setpixel_hdr_exec) simp_all
  have a: "(?y * 64 + ?x) * 4 = ?y * 256 + ?x * 4" by simp
  have "pixel_at 64 (framebuffer_bytes (advance (set_mem s ?m))) ?x ?y = ?vs"
    unfolding pixel_at_def fb_hdr [OF ok] a
    by (rule slice_of_write) (use xb yb len in simp_all)
  then have "map unat (pixel_at 64 (framebuffer_bytes (advance (set_mem s ?m))) ?x ?y)
     = map (scaled_spec 4)
              [unat (bits i 12 0xF), unat (bits i 8 0xF), unat (bits i 4 0xF), unat (i AND 0xF)]"
    by (simp add: scaled_spec_consts channel_byte17 field4_less low4_less)
  with e show "\<exists>s'. execute_instruction_hdr nep50 s i = Inr s' \<and>
         map unat (pixel_at 64 (framebuffer_bytes s') (unat (bits i 20 0xF)) (unat (bits i 16 0xF)))
          = map (scaled_spec 4)
              [unat (bits i 12 0xF), unat (bits i 8 0xF), unat (bits i 4 0xF), unat (i AND 0xF)]"
    by blast
next
  assume h: "bits i 24 0xFF = 5 \<and> machine_ok t \<and> bits i 20 0xFF < 128 \<and> bits i 12 0xFF < 128"
  let ?x = "unat (bits i 20 0xFF)" and ?y = "unat (bits i 12 0xFF)"
  let ?vs = "[ucast (bits i 9 0x7 * 36), ucast (bits i 6 0x7 * 36),
           ucast (bits i 3 0x7 * 36), ucast ((i AND 0x7) * 36)] :: u8 list"
  let ?m = "take (?y * 512 + ?x * 4) (mem_bytes t) @ ?vs @ drop (?y * 512 + ?x * 4 + 4) (mem_bytes t)"
  have ok: "machine_ok t" using h by simp
  have xb: "?x < 128" and yb: "?y < 128"
    using h by (simp_all add: word_less_nat_alt)
  have len: "length (mem_bytes t) = 131072"
    using ok by (simp add: machine_ok_def)
  have e: "execute_instruction nep50 t i = Inr (advance (set_mem t ?m))"
    using h by (intro setpixel_exec) simp_all
  have a: "(?y * 128 + ?x) * 4 = ?y * 512 + ?x * 4" by simp
  have "pixel_at 128 (framebuffer_bytes (advance (set_mem t ?m))) ?x ?y = ?vs"
    unfolding pixel_at_def fb_main [OF ok] a
    by (rule slice_of_write) (use xb yb len in simp_all)
  then have "map unat (pixel_at 128 (framebuffer_bytes (advance (set_mem t ?m))) ?x ?y)
     = map (scaled_spec 3)
              [unat (bits i 9 0x7), unat (bits i 6 0x7), unat (bits i 3 0x7), unat (i AND 0x7)]"
    by (simp add: scaled_spec_consts channel_byte36 field3_less low3_less)
  with e show "\<exists>t'. execute_instruction nep50 t i = Inr t' \<and>
         map unat (pixel_at 128 (framebuffer_bytes t') (unat (bits i 20 0xFF)) (unat (bits i 12 0xFF)))
          = map (scaled_spec 3)
              [unat (bits i 9 0x7), unat (bits i 6 0x7), unat (bits i 3 0x7), unat (i AND 0x7)]"
    by blast
qed (simp_all add: scaled_spec_def)

theorem setpixel_channel_scaling_witness:
  "(\<exists>s'. execute_instruction_hdr True (Emulator_init_hdr [] []) 0x05A3F00F = Inr s' \<and>
       map unat (pixel_at 64 (framebuffer_bytes s') 10 3) = [255, 0, 0, 255])
   \<and> (\<exists>t'. execute_instruction True (Emulator_init [] []) 0x05001E07 = Inr t' \<and>
       map unat (pixel_at 128 (framebuffer_bytes t') 80 1) = [252, 0, 0, 252])"
proof -
  have h: "machine_ok_hdr (Emulator_init_hdr [] [])"
    by (simp add: machine_ok_hdr_def Emulator_init_hdr_def mem_bytes_def)
  have m: "machine_ok (Emulator_init [] [])"
    by (simp add: machine_ok_def Emulator_init_def mem_bytes_def)
  have b: "bits (0x05A3F00F :: u32) 24 0xFF = 5" "bits (0x05001E07 :: u32) 24 0xFF = 5"
    "bits (0x05001E07 :: u32) 20 0xFF < 128" "bits (0x05001E07 :: u32) 12 0xFF < 128"
    by (simp_all add: bits_def)
  have f: "unat (bits (0x05A3F00F :: u32) 20 0xF) = 10" "unat (bits (0x05A3F00F :: u32) 16 0xF) = 3"
    "unat (bits (0x05A3F00F :: u32) 12 0xF) = 15" "unat (bits (0x05A3F00F :: u32) 8 0xF) = 0"
    "unat (bits (0x05A3F00F :: u32) 4 0xF) = 0" "unat ((0x05A3F00F :: u32) AND 0xF) = 15"
    "unat (bits (0x05001E07 :: u32) 20 0xFF) = 80" "unat (bits (0x05001E07 :: u32) 12 0xFF) = 1"
    "unat (bits (0x05001E07 :: u32) 9 0x7) = 7" "unat (bits (0x05001E07 :: u32) 6 0x7) = 0"
    "unat (bits (0x05001E07 :: u32) 3 0x7) = 0" "unat ((0x05001E07 :: u32) AND 0x7) = 7"
    by (simp_all add: bits_def)
  show ?thesis
    using setpixel_channel_scaling
      [of "0x05A3F00F" "Emulator_init_hdr [] []" True "Emulator_init [] []" 15]
      setpixel_channel_scaling
      [of "0x05001E07" "Emulator_init_hdr [] []" True "Emulator_init [] []" 15] h m b
    by (simp add: f scaled_spec_def)
qed

text \<open>
  C10. In \<open>EMUPS55.17.25V0hdr.py\<close> (16 registers, 64x64 framebuffer) the x and y fields
  of SETPIXEL are four bits wide: for every instruction word with opcode 5 both are at
  most 15, the test \<open>x < 64 and y < 64\<close> succeeds, and the instruction leaves every pixel
  with \<open>x > 15\<close> or \<open>y > 15\<close> of the framebuffer as it was.
\<close>

theorem setpixel_hdr_stays_in_16x16:
  assumes op: "bits instruction 24 0xFF = 5" and ok: "machine_ok_hdr s"
  shows "unat (bits instruction 20 0xF) \<le> 15 \<and> unat (bits instruction 16 0xF) \<le> 15
     \<and> bits instruction 20 0xF < 64 \<and> bits instruction 16 0xF < 64
     \<and> (\<exists>s'. execute_instruction_hdr nep50 s instruction = Inr s'
          \<and> (\<forall>x y. x < 64 \<and> y < 64 \<and> (15 < x \<or> 15 < y) \<longrightarrow>
                pixel_at 64 (framebuffer_bytes s') x y = pixel_at 64 (framebuffer_bytes s) x y))"
proof -
  let ?x = "unat (bits instruction 20 0xF)" and ?y = "unat (bits instruction 16 0xF)"
  let ?vs = "[ucast (bits instruction 12 0xF * 17), ucast (bits instruction 8 0xF * 17),
           ucast (bits instruction 4 0xF * 17), ucast ((instruction AND 0xF) * 17)] :: u8 list"
  let ?m = "take (?y * 256 + ?x * 4) (mem_bytes s) @ ?vs @ drop (?y * 256 + ?x * 4 + 4) (mem_bytes s)"
  have xb: "?x < 16" and yb: "?y < 16"
    by (rule field4_less)+
  have len: "length (mem_bytes s) = 65536"
    using ok by (simp add: machine_ok_hdr_def)
  have e: "execute_instruction_hdr nep50 s instruction = Inr (advance (set_mem s ?m))"
    by (rule setpixel_hdr_exec [OF op ok])
  have px: "pixel_at 64 (framebuffer_bytes (advance (set_mem s ?m))) x y
        = pixel_at 64 (framebuffer_bytes s) x y"
    if "x < 64 \<and> y < 64 \<and> (15 < x \<or> 15 < y)" for x y
  proof -
    have far: "(y * 64 + x) * 4 + 4 \<le> ?y * 256 + ?x * 4 \<or> ?y * 256 + ?x * 4 + 4 \<le> (y * 64 + x) * 4"
      using that xb yb by (intro pixels_apart) simp_all
    have inm: "?y * 256 + ?x * 4 + 4 \<le> length (mem_bytes s)"
      using xb yb len by simp
    show ?thesis
      unfolding pixel_at_def fb_hdr [OF ok] fb_hdr0 [OF ok]
      by (rule slice_outside_write [OF _ inm far]) simp
  qed
  show ?thesis
    using xb yb field4_word_less [of instruction 20] field4_word_less [of instruction 16] e px
    by simp
qed

theorem setpixel_hdr_stays_in_16x16_witness:
  "bits (0x05FFF00F :: u32) 24 0xFF = 5 \<and> machine_ok_hdr (Emulator_init_hdr [] [])
   \<and> unat (bits (0x05FFF00F :: u32) 20 0xF) = 15 \<and> unat (bits (0x05FFF00F :: u32) 16 0xF) = 15
   \<and> (\<exists>s'. execute_instruction_hdr False (Emulator_init_hdr [] []) 0x05FFF00F = Inr s'
        \<and> pixel_at 64 (framebuffer_bytes s') 16 15
            = pixel_at 64 (framebuffer_bytes (Emulator_init_hdr [] [])) 16 15
        \<and> pixel_at 64 (framebuffer_bytes s') 15 16
            = pixel_at 64 (framebuffer_bytes (Emulator_init_hdr [] [])) 15 16)"
proof -
  have h: "machine_ok_hdr (Emulator_init_hdr [] [])"
    by (simp add: machine_ok_hdr_def Emulator_init_hdr_def mem_bytes_def)
  have b: "bits (0x05FFF00F :: u32) 24 0xFF = 5"
    by (simp add: bits_def)
  have f: "unat (bits (0x05FFF00F :: u32) 20 0xF) = 15" "unat (bits (0x05FFF00F :: u32) 16 0xF) = 15"
    by (simp_all add: bits_def)
  from setpixel_hdr_stays_in_16x16 [OF b h, of False]
  obtain s' where e: "execute_instruction_hdr False (Emulator_init_hdr [] []) 0x05FFF00F = Inr s'"
    and px: "\<forall>x y. x < 64 \<and> y < 64 \<and> (15 < x \<or> 15 < y) \<longrightarrow>
                pixel_at 64 (framebuffer_bytes s') x y
                 = pixel_at 64 (framebuffer_bytes (Emulator_init_hdr [] [])) x y"
    by blast
  have "pixel_at 64 (framebuffer_bytes s') 16 15
            = pixel_at 64 (framebuffer_bytes (Emulator_init_hdr [] [])) 16 15"
    using px by simp
  moreover have "pixel_at 64 (framebuffer_bytes s') 15 16
            = pixel_at 64 (framebuffer_bytes (Emulator_init_hdr [] [])) 15 16"
    using px by simp
  ultimately show ?thesis
    using h b f e by blast
qed

subsection \<open>Framebuffer and memory\<close>

text \<open>
  C5 (as amended). In \<open>PS5EMU1.06.29.251.0.py\<close> the framebuffer is a view of the memory
  buffer: in every state the application can reach, the bytes the presenter reads are
  the first \<open>128 * 128 * 4\<close> bytes of memory. A SETPIXEL that passes the bounds test and a
  STORE whose address register holds the offset of that pixel and whose source register
  holds the four pixel bytes leave the same framebuffer, the one with that pixel set.
\<close>

theorem framebuffer_aliases_memory:
  "(reachable nep50 s \<longrightarrow>
      machine_ok s \<and> framebuffer_bytes s = take (128 * 128 * 4) (mem_bytes s))
   \<and> (machine_ok s \<and> bits i5 24 0xFF = 5 \<and> bits i5 20 0xFF < 128 \<and> bits i5 12 0xFF < 128
       \<and> bits i4 24 0xFF = 4
       \<and> unat (registers s ! unat (bits i4 16 0xF))
           = unat (bits i5 12 0xFF) * 128 * 4 + unat (bits i5 20 0xFF) * 4
       \<and> bytes_of_uint32 (registers s ! unat (bits i4 20 0xF))
           = [ucast (bits i5 9 0x7 * 36), ucast (bits i5 6 0x7 * 36),
              ucast (bits i5 3 0x7 * 36), ucast ((i5 AND 0x7) * 36)]
      \<longrightarrow> (\<exists>t5 t4. execute_instruction nep50 s i5 = Inr t5
             \<and> execute_instruction nep50 s i4 = Inr t4
             \<and> framebuffer_bytes t5 = framebuffer_bytes t4
             \<and> framebuffer_bytes t4 = take (128 * 128 * 4) (mem_bytes t4)
             \<and> pixel_at 128 (framebuffer_bytes t4) (unat (bits i5 20 0xFF)) (unat (bits i5 12 0xFF))
                 = bytes_of_uint32 (registers s ! unat (bits i4 20 0xF))))"
proof (intro conjI impI)
  assume "reachable nep50 s"
  then show "machine_ok s" by (rule reachable_ok)
  then show "framebuffer_bytes s = take (128 * 128 * 4) (mem_bytes s)"
    by (rule fb_main0)
next
  assume h: "machine_ok s \<and> bits i5 24 0xFF = 5 \<and> bits i5 20 0xFF < 128 \<and> bits i5 12 0xFF < 128
       \<and> bits i4 24 0xFF = 4
       \<and> unat (registers s ! unat (bits i4 16 0xF))
           = unat (bits i5 12 0xFF) * 128 * 4 + unat (bits i5 20 0xFF) * 4
       \<and> bytes_of_uint32 (registers s ! unat (bits i4 20 0xF))
           = [ucast (bits i5 9 0x7 * 36), ucast (bits i5 6 0x7 * 36),
              ucast (bits i5 3 0x7 * 36), ucast ((i5 AND 0x7) * 36)]"
  let ?x = "unat (bits i5 20 0xFF)" and ?y = "unat (bits i5 12 0xFF)"
  let ?a = "unat (registers s ! unat (bits i4 16 0xF))"
  let ?vs = "bytes_of_uint32 (registers s ! unat (bits i4 20 0xF))"
  let ?m = "take ?a (mem_bytes s) @ ?vs @ drop (?a + 4) (mem_bytes s)"
  have ok: "machine_ok s" using h by simp
  have len: "length (mem_bytes s) = 131072"
    using ok by (simp add: machine_ok_def)
  have xb: "?x < 128" and yb: "?y < 128"
    using h by (simp_all add: word_less_nat_alt)
  have a: "?a = ?y * 512 + ?x * 4"
    using h by simp
  have "?a + 4 \<le> 131072"
    using xb yb a by simp
  then have ai: "uint (registers s ! unat (bits i4 16 0xF)) + 4 \<le> 128 * 1024"
    by (simp add: unat_eq_nat_uint del: nat_uint_eq)
  have op4: "bits i4 24 0xFF = 4" using h by simp
  have e4: "execute_instruction nep50 s i4 = Inr (advance (set_mem s ?m))"
    by (rule store_exec [OF op4 ok ai])
  have e5: "execute_instruction nep50 s i5 = Inr (advance (set_mem s ?m))"
    using h setpixel_exec [of i5 s nep50] a by simp
  have okm: "machine_ok (advance (set_mem s ?m))"
    using e4 ok by (rule execute_instruction_ok [rotated])
  have fb: "framebuffer_bytes (advance (set_mem s ?m)) = take (128 * 128 * 4) (mem_bytes (advance (set_mem s ?m)))"
    using okm by (rule fb_main0)
  have o: "(?y * 128 + ?x) * 4 = ?a" using a by simp
  have px: "pixel_at 128 (framebuffer_bytes (advance (set_mem s ?m))) ?x ?y = ?vs"
    unfolding pixel_at_def fb_main [OF ok] o
    by (rule slice_of_write) (use xb yb len a in simp_all)
  show "\<exists>t5 t4. execute_instruction nep50 s i5 = Inr t5
             \<and> execute_instruction nep50 s i4 = Inr t4
             \<and> framebuffer_bytes t5 = framebuffer_bytes t4
             \<and> framebuffer_bytes t4 = take (128 * 128 * 4) (mem_bytes t4)
             \<and> pixel_at 128 (framebuffer_bytes t4) (unat (bits i5 20 0xFF)) (unat (bits i5 12 0xFF))
                 = bytes_of_uint32 (registers s ! unat (bits i4 20 0xF))"
    using e4 e5 fb px by blast
qed

theorem framebuffer_aliases_memory_witness:
  "reachable True (stop (Emulator_init [] []))
   \<and> framebuffer_bytes (stop (Emulator_init [] []))
       = take (128 * 128 * 4) (mem_bytes (stop (Emulator_init [] [])))
   \<and> (\<exists>t5 t4.
        execute_instruction True
          ((Emulator_init [] [])\<lparr>registers := (replicate 16 0)[1 := 832, 2 := 0xFC0000FC]\<rparr>)
          0x05001E07 = Inr t5
      \<and> execute_instruction True
          ((Emulator_init [] [])\<lparr>registers := (replicate 16 0)[1 := 832, 2 := 0xFC0000FC]\<rparr>)
          0x04210000 = Inr t4
      \<and> framebuffer_bytes t5 = framebuffer_bytes t4
      \<and> pixel_at 128 (framebuffer_bytes t4) 80 1 = [252, 0, 0, 252])"
proof -
  let ?s = "(Emulator_init [] [])\<lparr>registers := (replicate 16 0)[1 := 832, 2 := 0xFC0000FC]\<rparr>"
  have r: "reachable True (stop (Emulator_init [] []))"
    by (intro reachable.stop reachable.init)
  have ok: "machine_ok ?s"
    by (simp add: machine_ok_def Emulator_init_def mem_bytes_def)
  have b: "bits (0x05001E07 :: u32) 24 0xFF = 5" "bits (0x05001E07 :: u32) 20 0xFF < 128"
    "bits (0x05001E07 :: u32) 12 0xFF < 128" "bits (0x04210000 :: u32) 24 0xFF = 4"
    by (simp_all add: bits_def)
  have f: "unat (bits (0x05001E07 :: u32) 20 0xFF) = 80" "unat (bits (0x05001E07 :: u32) 12 0xFF) = 1"
    "bits (0x05001E07 :: u32) 9 0x7 = 7" "bits (0x05001E07 :: u32) 6 0x7 = 0"
    "bits (0x05001E07 :: u32) 3 0x7 = 0" "(0x05001E07 :: u32) AND 0x7 = 7"
    "unat (bits (0x04210000 :: u32) 16 0xF) = 1" "unat (bits (0x04210000 :: u32) 20 0xF) = 2"
    by (simp_all add: bits_def)
  have regs: "registers ?s ! 1 = 832" "registers ?s ! 2 = 0xFC0000FC"
    by (simp_all add: numeral_eq_Suc)
  have bs: "bytes_of_uint32 (0xFC0000FC :: u32) = [252, 0, 0, 252]"
    by (simp add: bytes_of_uint32_def)
  show ?thesis
    using r ok b framebuffer_aliases_memory [of True "stop (Emulator_init [] [])", THEN conjunct1]
      framebuffer_aliases_memory [of True ?s "0x05001E07" "0x04210000", THEN conjunct2]
    unfolding f regs bs
    by simp blast
qed

text \<open>
  In \<open>v1.py\<close> the framebuffer is an array of its own. After loading the eight bytes
  \<open>01 00 00 00 00 00 00 00\<close> the first byte of memory is 1 and the framebuffer is still
  all zero: the two are not the same bytes.
\<close>

theorem framebuffer_v1_is_separate:
  "(case load_game_v1 (Emulator_init_v1 [] []) [1, 0, 0, 0, 0, 0, 0, 0] of
      Inl e \<Rightarrow> False
    | Inr s \<Rightarrow> framebuffer_v1 s
               \<noteq> take (64 * 64 * 4) (concat (map bytes_of_uint64 (memory_v1 s))))"
proof -
  let ?n = "16 * 1024 * 1024 * 1024 div 8 :: nat"
  let ?m = "(replicate ?n (0 :: u64))[0 := 1]"
  have w: "uint64_of_bytes [1, 0, 0, 0, 0, 0, 0, 0] = 1"
    by (simp add: uint64_of_bytes_def)
  have l: "load_words_v1 [1, 0, 0, 0, 0, 0, 0, 0] (range8 (length [1, 0, 0, 0, 0, 0, 0, 0 :: u8]))
      (replicate ?n 0) = Inr ?m"
    by (simp add: range8_def ebind_def getslice_def clamp_index_def frombuffer_uint64_0_def
        w write_v1_def)
  have e: "load_game_v1 (Emulator_init_v1 [] []) [1, 0, 0, 0, 0, 0, 0, 0]
      = Inr ((Emulator_init_v1 [] [])\<lparr>
           log_queue_v1 := [(''warning'', ''Loading game...'')],
           memory_v1 := ?m, game_loaded_v1 := True,
           log_queue_v1 := [(''warning'', ''Loading game...''), (''success'', ''Game loaded successfully.'')],
           status_queue_v1 := [(''Game loaded'', ''success'')]\<rparr>)"
    using l by (simp add: load_game_v1_def Emulator_init_v1_def ebind_def)
  have h1: "hd (take (64 * 64 * 4) (concat (map bytes_of_uint64 ?m))) = 1"
    using v1_first_word [of ?n "64 * 64 * 4" 1] by (simp add: bytes_of_uint64_def)
  have h0: "hd (replicate (64 * 64 * 4) (0 :: u8)) = 0"
    by simp
  have "replicate (64 * 64 * 4) (0 :: u8) \<noteq> take (64 * 64 * 4) (concat (map bytes_of_uint64 ?m))"
    using h0 h1 by (metis zero_neq_one)
  then show ?thesis
    unfolding e by (simp add: Emulator_init_v1_def)
qed

subsection \<open>Loading a program\<close>

text \<open>
  C6 (as amended). For every byte sequence that fits in memory, \<open>load_game\<close> stores its
  whole words from address 0. When the length is not a multiple of 4, the word after
  them is stored as four zero bytes: the trailing bytes of the input are not stored.
  Memory beyond is unchanged; afterwards \<open>game_loaded\<close> is true, and the log queue has
  received the warning \<open>Loading program...\<close> and then the success event, the status
  queue \<open>Program loaded\<close>. The same holds in both files.
\<close>

theorem load_game_zero_fills_partial_word:
  "(machine_ok s \<and> length game_data \<le> 128 * 1024 \<longrightarrow>
     (\<exists>s'. load_game nep50 s game_data = Inr s'
       \<and> mem_bytes s' = take (4 * (length game_data div 4)) game_data
              @ replicate (if length game_data mod 4 = 0 then 0 else 4) 0
              @ drop (4 * ((length game_data + 3) div 4)) (mem_bytes s)
       \<and> game_loaded s'
       \<and> log_queue s' = log_queue s @ [(''warning'', ''Loading program...''),
                                        (''success'', ''Program loaded successfully.'')]
       \<and> status_queue s' = status_queue s @ [(''Program loaded'', ''success'')]))
   \<and> (machine_ok_hdr t \<and> length game_data \<le> 64 * 1024 \<longrightarrow>
     (\<exists>t'. load_game_hdr nep50 t game_data = Inr t'
       \<and> mem_bytes t' = take (4 * (length game_data div 4)) game_data
              @ replicate (if length game_data mod 4 = 0 then 0 else 4) 0
              @ drop (4 * ((length game_data + 3) div 4)) (mem_bytes t)
       \<and> game_loaded t'
       \<and> log_queue t' = log_queue t @ [(''warning'', ''Loading program...''),
                                        (''success'', ''Program loaded successfully.'')]
       \<and> status_queue t' = status_queue t @ [(''Program loaded'', ''success'')]))"
proof (intro conjI impI)
  assume "machine_ok s \<and> length game_data \<le> 128 * 1024"
  then have a: "machine_ok s" "length game_data \<le> 128 * 1024" by simp_all
  show "\<exists>s'. load_game nep50 s game_data = Inr s'
       \<and> mem_bytes s' = take (4 * (length game_data div 4)) game_data
              @ replicate (if length game_data mod 4 = 0 then 0 else 4) 0
              @ drop (4 * ((length game_data + 3) div 4)) (mem_bytes s)
       \<and> game_loaded s'
       \<and> log_queue s' = log_queue s @ [(''warning'', ''Loading program...''),
                                        (''success'', ''Program loaded successfully.'')]
       \<and> status_queue s' = status_queue s @ [(''Program loaded'', ''success'')]"
    unfolding load_game_result [OF a]
    by (simp add: status_put_def log_put_def set_mem_def mem_bytes_def)
next
  assume "machine_ok_hdr t \<and> length game_data \<le> 64 * 1024"
  then have a: "machine_ok_hdr t" "length game_data \<le> 64 * 1024" by simp_all
  show "\<exists>t'. load_game_hdr nep50 t game_data = Inr t'
       \<and> mem_bytes t' = take (4 * (length game_data div 4)) game_data
              @ replicate (if length game_data mod 4 = 0 then 0 else 4) 0
              @ drop (4 * ((length game_data + 3) div 4)) (mem_bytes t)
       \<and> game_loaded t'
       \<and> log_queue t' = log_queue t @ [(''warning'', ''Loading program...''),
                                        (''success'', ''Program loaded successfully.'')]
       \<and> status_queue t' = status_queue t @ [(''Program loaded'', ''success'')]"
    unfolding load_game_hdr_result [OF a]
    by (simp add: status_put_def log_put_def set_mem_def mem_bytes_def)
qed

theorem load_game_zero_fills_partial_word_witness:
  "machine_ok (Emulator_init [] []) \<and> length [9, 8, 7, 6, 5, 4 :: u8] \<le> 128 * 1024
   \<and> (\<exists>s'. load_game False (Emulator_init [] []) [9, 8, 7, 6, 5, 4] = Inr s'
        \<and> take 8 (mem_bytes s') = [9, 8, 7, 6, 0, 0, 0, 0]
        \<and> game_loaded s'
        \<and> log_queue s' = [(''warning'', ''Loading program...''),
                           (''success'', ''Program loaded successfully.'')])"
proof -
  have ok: "machine_ok (Emulator_init [] [])" by (rule init_ok)
  have fit: "length [9, 8, 7, 6, 5, 4 :: u8] \<le> 128 * 1024" by simp
  have four: "replicate 4 (0 :: u8) = [0, 0, 0, 0]"
    by (simp add: numeral_eq_Suc)
  obtain s' where e: "load_game False (Emulator_init [] []) [9, 8, 7, 6, 5, 4] = Inr s'"
    and m: "mem_bytes s' = take (4 * (length [9, 8, 7, 6, 5, 4 :: u8] div 4)) [9, 8, 7, 6, 5, 4]
            @ replicate (if length [9, 8, 7, 6, 5, 4 :: u8] mod 4 = 0 then 0 else 4) 0
            @ drop (4 * ((length [9, 8, 7, 6, 5, 4 :: u8] + 3) div 4)) (mem_bytes (Emulator_init [] []))"
    and g: "game_loaded s'"
    and l: "log_queue s' = log_queue (Emulator_init [] []) @ [(''warning'', ''Loading program...''),
                                      (''success'', ''Program loaded successfully.'')]"
    using load_game_zero_fills_partial_word
            [of "Emulator_init [] []" "[9, 8, 7, 6, 5, 4]" False, THEN conjunct1] ok fit
    by blast
  have "take 8 (mem_bytes s') = [9, 8, 7, 6, 0, 0, 0, 0]"
    unfolding m by (simp add: four)
  moreover have "log_queue s' = [(''warning'', ''Loading program...''),
                           (''success'', ''Program loaded successfully.'')]"
    unfolding l by (simp add: Emulator_init_def)
  ultimately show ?thesis using ok fit e g by blast
qed

text \<open>
  Five bytes: the fifth byte is not in the stored image, the second word is zero.
\<close>

theorem load_game_discards_trailing_bytes:
  "(case load_game True (Emulator_init [] []) [1, 2, 3, 4, 5] of
      Inl e \<Rightarrow> False
    | Inr s \<Rightarrow> take 8 (mem_bytes s) = [1, 2, 3, 4, 0, 0, 0, 0]
               \<and> take 8 (mem_bytes s) \<noteq> [1, 2, 3, 4, 5, 0, 0, 0])"
proof -
  have four: "replicate 4 (0 :: u8) = [0, 0, 0, 0]"
    by (simp add: numeral_eq_Suc)
  have fit: "length [1, 2, 3, 4, 5 :: u8] \<le> 128 * 1024" by simp
  show ?thesis
    unfolding load_game_result [OF init_ok fit]
    by (simp add: status_put_def log_put_def set_mem_def mem_bytes_def four)
qed

subsection \<open>One cycle\<close>

text \<open>
  C7. \<open>run_cycle\<close> changes nothing when the machine is not running. When a call
  returns and the machine is still running, \<open>pc\<close> is below the memory size: whenever the
  executed instruction leaves \<open>pc\<close> at or past the top of memory, \<open>run_cycle\<close> returns the
  state of \<open>stop\<close> (not running, \<open>pc = 0\<close>). And the call does return, for every
  well-shaped state, unless LDR or STR computes its address bound with wrap-around.
  The first two statements hold for \<open>run_cycle\<close> of \<open>v1.py\<close> as well, whose memory size
  is eight times the number of its words.
\<close>

theorem run_cycle_halts_at_top:
  "(\<not> is_running s \<longrightarrow> run_cycle nep50 s = Inr s)
   \<and> (run_cycle nep50 s = Inr s' \<and> is_running s' \<longrightarrow> pc s' < int (length (mem_bytes s')))
   \<and> (is_running s \<and> read_uint32 nep50 (mem_bytes s) (PyInt (pc s)) = Inr i
        \<and> execute_instruction nep50 s i = Inr s1 \<and> int (length (mem_bytes s1)) \<le> pc s1 \<longrightarrow>
        run_cycle nep50 s = Inr (stop s1) \<and> \<not> is_running (stop s1) \<and> pc (stop s1) = 0)
   \<and> (machine_ok s
        \<and> (\<forall>j. read_uint32 nep50 (mem_bytes s) (PyInt (pc s)) = Inr j \<longrightarrow> \<not> address_wraps nep50 s j)
        \<longrightarrow> (\<exists>t. run_cycle nep50 s = Inr t))
   \<and> (\<not> is_running_v1 u \<longrightarrow> run_cycle_v1 nep50 x y r g b u = Inr u)
   \<and> (run_cycle_v1 nep50 x y r g b u = Inr u' \<and> is_running_v1 u' \<longrightarrow>
        counter_val (pc_v1 u') < int (length (memory_v1 u')) * 8)"
proof (intro conjI impI)
  assume "\<not> is_running s"
  then show "run_cycle nep50 s = Inr s"
    by (simp add: run_cycle_def)
next
  assume h: "run_cycle nep50 s = Inr s' \<and> is_running s'"
  show "pc s' < int (length (mem_bytes s'))"
  proof (cases "is_running s")
    case False
    then show ?thesis using h by (simp add: run_cycle_def)
  next
    case True
    then obtain j s2 where "execute_instruction nep50 s j = Inr s2"
      and s': "s' = (if pc s2 \<ge> int (length (mem_bytes s2)) then stop s2 else s2)"
      using h by (auto simp add: run_cycle_def ebind_Inr)
    then show ?thesis
      using h by (auto simp add: stop_def status_put_def log_put_def split: if_splits)
  qed
next
  assume h: "is_running s \<and> read_uint32 nep50 (mem_bytes s) (PyInt (pc s)) = Inr i
        \<and> execute_instruction nep50 s i = Inr s1 \<and> int (length (mem_bytes s1)) \<le> pc s1"
  then show "run_cycle nep50 s = Inr (stop s1)"
    by (simp add: run_cycle_def ebind_def)
  show "\<not> is_running (stop s1)" and "pc (stop s1) = 0"
    by (simp_all add: stop_def status_put_def log_put_def)
next
  assume "machine_ok s
        \<and> (\<forall>j. read_uint32 nep50 (mem_bytes s) (PyInt (pc s)) = Inr j \<longrightarrow> \<not> address_wraps nep50 s j)"
  then show "\<exists>t. run_cycle nep50 s = Inr t"
    by (intro run_cycle_completes) simp_all
next
  assume "\<not> is_running_v1 u"
  then show "run_cycle_v1 nep50 x y r g b u = Inr u"
    by (simp add: run_cycle_v1_def)
next
  assume h: "run_cycle_v1 nep50 x y r g b u = Inr u' \<and> is_running_v1 u'"
  show "counter_val (pc_v1 u') < int (length (memory_v1 u')) * 8"
  proof (cases "is_running_v1 u")
    case False
    then show ?thesis using h by (simp add: run_cycle_v1_def)
  next
    case True
    then obtain u2 where
      u': "u' = (if counter_val (pc_v1 u2) \<ge> int (length (memory_v1 u2)) * 8
                 then stop_v1 u2 else u2)"
      using h by (auto simp add: run_cycle_v1_def Let_def ebind_Inr)
    then show ?thesis
      using h by (auto simp add: stop_v1_def split: if_splits)
  qed
qed

theorem run_cycle_halts_at_top_witness:
  "\<not> is_running (Emulator_init [] [])
   \<and> run_cycle True (Emulator_init [] []) = Inr (Emulator_init [] [])
   \<and> run_cycle True ((Emulator_init [] [])\<lparr>pc := 131068, is_running := True\<rparr>)
       = Inr (stop ((Emulator_init [] [])\<lparr>pc := 131072, is_running := True\<rparr>))
   \<and> pc (stop ((Emulator_init [] [])\<lparr>pc := 131072, is_running := True\<rparr>)) = 0
   \<and> run_cycle True ((Emulator_init [] [])\<lparr>pc := 0, is_running := True\<rparr>)
       = Inr ((Emulator_init [] [])\<lparr>pc := 4, is_running := True\<rparr>)
   \<and> pc ((Emulator_init [] [])\<lparr>pc := 4, is_running := True\<rparr>)
       < int (length (mem_bytes ((Emulator_init [] [])\<lparr>pc := 4, is_running := True\<rparr>)))
   \<and> (\<exists>u'. run_cycle_v1 True 3 2 10 20 30 ((Emulator_init_v1 [] [])\<lparr>is_running_v1 := True\<rparr>)
          = Inr u'
        \<and> is_running_v1 u' \<and> pc_v1 u' = NpCounter 8
        \<and> counter_val (pc_v1 u') < int (length (memory_v1 u')) * 8)"
proof -
  let ?s = "(Emulator_init [] [])\<lparr>pc := 131068, is_running := True\<rparr>"
  let ?s1 = "(Emulator_init [] [])\<lparr>pc := 131072, is_running := True\<rparr>"
  let ?r = "(Emulator_init [] [])\<lparr>pc := 0, is_running := True\<rparr>"
  let ?r1 = "(Emulator_init [] [])\<lparr>pc := 4, is_running := True\<rparr>"
  have n: "\<not> is_running (Emulator_init [] [])"
    by (simp add: Emulator_init_def)
  have r: "is_running ?s" "is_running ?r1" by simp_all
  have m: "mem_bytes ?s = replicate (128 * 1024) 0" "mem_bytes ?s1 = replicate (128 * 1024) 0"
    "mem_bytes ?r = replicate (128 * 1024) 0" "mem_bytes ?r1 = replicate (128 * 1024) 0"
    by (simp_all add: mem_bytes_def Emulator_init_def)
  have f: "read_uint32 True (mem_bytes ?s) (PyInt (pc ?s)) = Inr 0"
    "read_uint32 True (mem_bytes ?r) (PyInt (pc ?r)) = Inr 0"
    unfolding m
    by (simp_all add: read_uint32_def getslice_def clamp_index_def frombuffer_uint32_0_def
        word_of_zero_bytes)
  have e: "execute_instruction True ?s 0 = Inr ?s1" "execute_instruction True ?r 0 = Inr ?r1"
    by (simp_all add: execute_instruction_def bits_def advance_def)
  have t: "int (length (mem_bytes ?s1)) \<le> pc ?s1"
    unfolding m by simp
  have c: "run_cycle True ?r = Inr ?r1"
    using f(2) e(2) by (simp add: run_cycle_def ebind_def m)
  let ?u = "(Emulator_init_v1 [] [])\<lparr>is_running_v1 := True\<rparr>"
  let ?u1 = "(Emulator_init_v1 [] [])\<lparr>is_running_v1 := True,
        log_queue_v1 := [(''success'', ''Executing instruction: 0x0000000000000000'')],
        pc_v1 := NpCounter 8,
        framebuffer_v1 := replicate 524 0 @ [10, 20, 30, 255] @ replicate 15856 0\<rparr>"
  have v: "counter_val (pc_v1 ?u1) < int (length (memory_v1 ?u1)) * 8"
    using v1_first_cycle
      run_cycle_halts_at_top [of _ True _ _ _ ?u 3 2 10 20 30 ?u1]
    by simp
  have "\<exists>u'. run_cycle_v1 True 3 2 10 20 30 ?u = Inr u'
        \<and> is_running_v1 u' \<and> pc_v1 u' = NpCounter 8
        \<and> counter_val (pc_v1 u') < int (length (memory_v1 u')) * 8"
    using v1_first_cycle v by (intro exI [of _ ?u1]) simp
  then show ?thesis
    using n r f e t c run_cycle_halts_at_top [of "Emulator_init [] []" True]
      run_cycle_halts_at_top [of ?s True _ 0 ?s1]
      run_cycle_halts_at_top [of ?r True ?r1]
    by simp
qed

end
